theory Spec2Isabelle
  imports Complex_Main
begin

section \<open>Values of the training supervisor\<close>

subsection \<open>Python numbers\<close>

text \<open>
  The supervisor only compares and copies metric values; it never does arithmetic on
  them. A Python number is therefore a real number, one of the two infinities
  (\<^verbatim>\<open>numpy.inf\<close> and its negation) or a NaN. Comparisons with a NaN are false, as
  in Python.
\<close>

datatype pynum = NaN | NegInf | Fin real | PosInf

fun py_le :: "pynum \<Rightarrow> pynum \<Rightarrow> bool" where
  "py_le NaN b = False"
| "py_le a NaN = False"
| "py_le NegInf b = True"
| "py_le a PosInf = True"
| "py_le (Fin x) (Fin y) = (x \<le> y)"
| "py_le a b = False"

fun py_lt :: "pynum \<Rightarrow> pynum \<Rightarrow> bool" where
  "py_lt NaN b = False"
| "py_lt a NaN = False"
| "py_lt NegInf NegInf = False"
| "py_lt NegInf b = True"
| "py_lt PosInf b = False"
| "py_lt (Fin x) (Fin y) = (x < y)"
| "py_lt (Fin x) PosInf = True"
| "py_lt (Fin x) NegInf = False"

definition py_ge :: "pynum \<Rightarrow> pynum \<Rightarrow> bool" where
  "py_ge a b = py_le b a"

definition py_gt :: "pynum \<Rightarrow> pynum \<Rightarrow> bool" where
  "py_gt a b = py_lt b a"

subsection \<open>Exceptions and logger calls\<close>

datatype exn =
    KeyboardInterrupt
  | KeyError string
  | AttributeError string
  | ZeroDivisionError
  | ValueError
  | AssertionError
  | FileNotFoundError string
  | RuntimeError string
  | OtherError string

text \<open>
  A logger call is recorded by its level, its message template and the arguments
  formatted into it.
\<close>

datatype log_msg =
    Info_kv string pynum               \<comment> \<open>\<^verbatim>\<open>"    {:15s}: {}"\<close>\<close>
  | Warn_metric_not_found string       \<comment> \<open>\<^verbatim>\<open>"Warning: Metric '{}' is not found. ..."\<close>\<close>
  | Info_training_stops pynum          \<comment> \<open>\<^verbatim>\<open>"Validation performance didn't improve ..."\<close>\<close>
  | Info_saving_on_interrupt           \<comment> \<open>\<^verbatim>\<open>"Saving model on keyboard interrupt"\<close>\<close>
  | Info_saving_checkpoint string      \<comment> \<open>\<^verbatim>\<open>"Saving checkpoint: {} ..."\<close>\<close>
  | Info_loading_checkpoint string     \<comment> \<open>\<^verbatim>\<open>"Loading checkpoint: {} ..."\<close>\<close>
  | Warn_architecture                  \<comment> \<open>\<^verbatim>\<open>"Warning: Architecture configuration ..."\<close>\<close>
  | Warn_optimizer                     \<comment> \<open>\<^verbatim>\<open>"Warning: Optimizer or lr_scheduler ..."\<close>\<close>
  | Info_checkpoint_loaded int         \<comment> \<open>\<^verbatim>\<open>"Checkpoint loaded. Resume training from epoch {}"\<close>\<close>

subsection \<open>Dictionaries in insertion order\<close>

text \<open>
  The log record of an epoch is printed key by key in insertion order, so a
  dictionary is an association list: \<open>dict_set\<close> is \<^verbatim>\<open>d[k] = v\<close> (an existing key
  keeps its place), \<open>dict_update\<close> is \<^verbatim>\<open>d.update(r)\<close>, and a lookup is \<open>map_of\<close>.
\<close>

type_synonym 'v pydict = "(string \<times> 'v) list"

fun dict_set :: "string \<Rightarrow> 'v \<Rightarrow> 'v pydict \<Rightarrow> 'v pydict" where
  "dict_set k v [] = [(k, v)]"
| "dict_set k v ((k', v') # d) =
     (if k = k' then (k, v) # d else (k', v') # dict_set k v d)"

definition dict_update :: "'v pydict \<Rightarrow> 'v pydict \<Rightarrow> 'v pydict" where
  "dict_update d r = fold (\<lambda>(k, v) acc. dict_set k v acc) r d"

subsection \<open>Strings and paths\<close>

text \<open>\<^verbatim>\<open>str.split()\<close> with no argument: split at runs of whitespace, no empty tokens.\<close>

definition is_space :: "char \<Rightarrow> bool" where
  "is_space c = ((of_char c :: nat) \<in> {9, 10, 11, 12, 13, 28, 29, 30, 31, 32, 133, 160})"

fun split_from :: "string \<Rightarrow> string \<Rightarrow> string list" where
  "split_from cur [] = (if cur = [] then [] else [cur])"
| "split_from cur (c # cs) =
     (if is_space c
      then (if cur = [] then split_from [] cs else cur # split_from [] cs)
      else split_from (cur @ [c]) cs)"

definition py_split :: "string \<Rightarrow> string list" where
  "py_split s = split_from [] s"

text \<open>\<^verbatim>\<open>"{}".format(n)\<close> for an integer: its decimal digits, with a sign when negative.\<close>

definition digit_char :: "nat \<Rightarrow> char" where
  "digit_char d = char_of (48 + d)"

fun str_nat :: "nat \<Rightarrow> string" where
  "str_nat n = (if n < 10 then [digit_char n] else str_nat (n div 10) @ [digit_char (n mod 10)])"

definition str_int :: "int \<Rightarrow> string" where
  "str_int i = (if i < 0 then CHR ''-'' # str_nat (nat (- i)) else str_nat (nat i))"

text \<open>
  A \<^verbatim>\<open>pathlib\<close> path on POSIX is a root and a list of components. \<open>Path\<close> parses a
  string (empty and \<^verbatim>\<open>.\<close> components vanish), \<open>path_div\<close> is the operator \<^verbatim>\<open>/\<close> with
  a single relative component on the right, and \<open>path_str\<close> is \<^verbatim>\<open>str\<close>.
\<close>

record path =
  root :: string
  parts :: "string list"

fun split_slash :: "string \<Rightarrow> string \<Rightarrow> string list" where
  "split_slash cur [] = [cur]"
| "split_slash cur (c # cs) =
     (if c = CHR ''/'' then cur # split_slash [] cs else split_slash (cur @ [c]) cs)"

definition path_root :: "string \<Rightarrow> string" where
  "path_root s =
     (if take 2 s = ''//'' \<and> take 3 s \<noteq> ''///'' then ''//''
      else if take 1 s = ''/'' then ''/'' else '''')"

definition Path :: "string \<Rightarrow> path" where
  "Path s = \<lparr> root = path_root s,
             parts = filter (\<lambda>p. p \<noteq> [] \<and> p \<noteq> ''.'') (split_slash [] s) \<rparr>"

definition path_div :: "path \<Rightarrow> string \<Rightarrow> path" where
  "path_div p name = p \<lparr> parts := parts p @ [name] \<rparr>"

fun join_slash :: "string list \<Rightarrow> string" where
  "join_slash [] = []"
| "join_slash [p] = p"
| "join_slash (p # ps) = p @ ''/'' @ join_slash ps"

definition path_str :: "path \<Rightarrow> string" where
  "path_str p = (if root p = [] \<and> parts p = [] then ''.'' else root p @ join_slash (parts p))"

section \<open>State of the supervisor\<close>

text \<open>
  Configuration entries (\<open>'c\<close>) and serialized parameter, optimizer and scheduler
  states (\<open>'s\<close>) are opaque to the supervisor: it compares the former with \<^verbatim>\<open>==\<close>
  and \<^verbatim>\<open>!=\<close> and copies the latter.
\<close>

record trainer_cfg =
  cfg_epochs :: int
  cfg_save_period :: int
  cfg_monitor :: "string option"
  cfg_early_stop :: "pynum option"
  cfg_save_dir :: string

record 'c config =
  entries :: "'c pydict"
  trainer_section :: trainer_cfg
  resume :: "string option"

record ('c, 's) checkpoint =
  ck_g_arch :: string
  ck_d_arch :: string
  ck_epoch :: int
  ck_generator_state_dict :: 's
  ck_discriminator_state_dict :: 's
  ck_g_optimizer :: 's
  ck_d_optimizer :: 's
  ck_monitor_best :: pynum
  ck_config :: "'c config"
  ck_d_lr_scheduler :: "'s option"
  ck_g_lr_scheduler :: "'s option"

text \<open>
  The collaborators, each by its \<^verbatim>\<open>state_dict()\<close>. A scheduler is an attribute that a
  concrete trainer may or may not have set (\<^verbatim>\<open>hasattr\<close>).
\<close>

record 's nets =
  generator :: 's
  discriminator :: 's
  g_optimizer :: 's
  d_optimizer :: 's
  g_lr_scheduler :: "'s option"
  d_lr_scheduler :: "'s option"

text \<open>
  The fields of \<^verbatim>\<open>self\<close>. \<open>mnt_metric\<close> and \<open>early_stop\<close> are set only when
  monitoring is configured. The last four fields are the world outside: the files
  under the checkpoint directory, for each path the message of the error that
  \<^verbatim>\<open>torch.save\<close> raises when it writes there (none when the write succeeds; the code
  never creates the checkpoint directory), the writes of \<^verbatim>\<open>torch.save\<close> in order, and
  the calls of the logger in order.
\<close>

record ('c, 's) trainer =
  nets :: "'s nets"
  g_arch :: string
  d_arch :: string
  last_epoch :: int
  config :: "'c config"
  epochs :: int
  save_period :: int
  monitor :: string
  mnt_mode :: string
  mnt_best :: pynum
  mnt_metric :: "string option"
  early_stop :: "pynum option"
  start_epoch :: int
  checkpoint_dir :: path
  files :: "string \<rightharpoonup> ('c, 's) checkpoint"
  write_error :: "string \<rightharpoonup> string"
  saves :: "(string \<times> ('c, 's) checkpoint) list"
  logs :: "log_msg list"

definition logger :: "log_msg \<Rightarrow> ('c, 's) trainer \<Rightarrow> ('c, 's) trainer" where
  "logger m t = t \<lparr> logs := logs t @ [m] \<rparr>"

section \<open>Saving a checkpoint\<close>

definition checkpoint_state :: "('c, 's) trainer \<Rightarrow> int \<Rightarrow> ('c, 's) checkpoint" where
  "checkpoint_state t epoch =
     \<lparr> ck_g_arch = g_arch t,
       ck_d_arch = d_arch t,
       ck_epoch = epoch,
       ck_generator_state_dict = generator (nets t),
       ck_discriminator_state_dict = discriminator (nets t),
       ck_g_optimizer = g_optimizer (nets t),
       ck_d_optimizer = d_optimizer (nets t),
       ck_monitor_best = mnt_best t,
       ck_config = config t,
       ck_d_lr_scheduler = d_lr_scheduler (nets t),
       ck_g_lr_scheduler = g_lr_scheduler (nets t) \<rparr>"

definition checkpoint_filename :: "path \<Rightarrow> int \<Rightarrow> string" where
  "checkpoint_filename dir epoch =
     path_str (path_div dir (''checkpoint-epoch'' @ str_int epoch @ ''.pth''))"

text \<open>
  \<^verbatim>\<open>_save_checkpoint\<close>. A write that fails raises, leaves the files as they are and
  skips the logger call.
\<close>

definition save_checkpoint ::
  "int \<Rightarrow> bool \<Rightarrow> bool \<Rightarrow> ('c, 's) trainer \<Rightarrow> exn + ('c, 's) trainer" where
  "save_checkpoint epoch save_best only_best t =
     (let state = checkpoint_state t epoch;
          filename = checkpoint_filename (checkpoint_dir t) epoch
      in case write_error t filename of
           Some msg \<Rightarrow> Inl (RuntimeError msg)
         | None \<Rightarrow>
             Inr (logger (Info_saving_checkpoint filename)
                    (t \<lparr> files := (files t)(filename \<mapsto> state),
                         saves := saves t @ [(filename, state)] \<rparr>)))"

section \<open>The epoch loop\<close>

text \<open>
  The abstract hook \<^verbatim>\<open>_train_epoch\<close>: it reads the supervisor, returns a result
  dictionary or raises, and leaves the collaborators in a new state. It does not write
  the supervisor's own fields.
\<close>

type_synonym ('c, 's) hook =
  "int \<Rightarrow> ('c, 's) trainer \<Rightarrow> (exn + pynum pydict) \<times> 's nets"

text \<open>The body of the \<^verbatim>\<open>try\<close>: the improvement test.\<close>

definition check_improved :: "('c, 's) trainer \<Rightarrow> pynum pydict \<Rightarrow> exn + bool" where
  "check_improved t lg =
     (if mnt_mode t = ''min'' then
        (case mnt_metric t of
           None \<Rightarrow> Inl (AttributeError ''mnt_metric'')
         | Some m \<Rightarrow>
             (case map_of lg m of
                None \<Rightarrow> Inl (KeyError m)
              | Some v \<Rightarrow> Inr (py_le v (mnt_best t))))
      else if mnt_mode t = ''max'' then
        (case mnt_metric t of
           None \<Rightarrow> Inl (AttributeError ''mnt_metric'')
         | Some m \<Rightarrow>
             (case map_of lg m of
                None \<Rightarrow> Inl (KeyError m)
              | Some v \<Rightarrow> Inr (py_ge v (mnt_best t))))
      else Inr False)"

text \<open>
  The early-stop test. The result is the state, the counter, and either an exception
  or the pair of the flag \<^verbatim>\<open>best\<close> and whether the loop breaks.
\<close>

definition early_stop_check ::
  "('c, 's) trainer \<Rightarrow> nat \<Rightarrow> bool \<Rightarrow> (exn + bool \<times> bool) \<times> ('c, 's) trainer \<times> nat" where
  "early_stop_check t cnt best =
     (case early_stop t of
        None \<Rightarrow> (Inl (AttributeError ''early_stop''), t, cnt)
      | Some es \<Rightarrow>
          if py_gt (Fin (real cnt)) es
          then (Inr (best, True), logger (Info_training_stops es) t, cnt)
          else (Inr (best, False), t, cnt))"

definition count_improvement ::
  "('c, 's) trainer \<Rightarrow> pynum pydict \<Rightarrow> bool \<Rightarrow> nat \<Rightarrow>
   (exn + bool \<times> bool) \<times> ('c, 's) trainer \<times> nat" where
  "count_improvement t lg improved cnt =
     (if improved then
        (case mnt_metric t of
           None \<Rightarrow> (Inl (AttributeError ''mnt_metric''), t, cnt)
         | Some m \<Rightarrow>
             (case map_of lg m of
                None \<Rightarrow> (Inl (KeyError m), t, cnt)
              | Some v \<Rightarrow> early_stop_check (t \<lparr> mnt_best := v \<rparr>) 0 True))
      else early_stop_check t (cnt + 1) False)"

text \<open>The block under \<^verbatim>\<open>if self.mnt_mode != "off"\<close>; only a \<^verbatim>\<open>KeyError\<close> is caught.\<close>

definition monitor_step ::
  "('c, 's) trainer \<Rightarrow> pynum pydict \<Rightarrow> nat \<Rightarrow>
   (exn + bool \<times> bool) \<times> ('c, 's) trainer \<times> nat" where
  "monitor_step t lg cnt =
     (case check_improved t lg of
        Inr improved \<Rightarrow> count_improvement t lg improved cnt
      | Inl (KeyError k) \<Rightarrow>
          (case mnt_metric t of
             None \<Rightarrow> (Inl (AttributeError ''mnt_metric''), t, cnt)
           | Some m \<Rightarrow>
               count_improvement
                 ((logger (Warn_metric_not_found m) t) \<lparr> mnt_mode := ''off'' \<rparr>) lg False cnt)
      | Inl e \<Rightarrow> (Inl e, t, cnt))"

datatype flow = Continue | Break

text \<open>
  The last statement of the loop body; \<^verbatim>\<open>%\<close> by zero raises, and so may the write.
\<close>

definition save_step ::
  "int \<Rightarrow> bool \<Rightarrow> ('c, 's) trainer \<Rightarrow> nat \<Rightarrow> (exn + flow) \<times> ('c, 's) trainer \<times> nat" where
  "save_step epoch best t cnt =
     (if save_period t = 0 then (Inl ZeroDivisionError, t, cnt)
      else if epoch mod save_period t = 0 \<or> best
      then (case save_checkpoint epoch best True t of
              Inl e \<Rightarrow> (Inl e, t, cnt)
            | Inr t' \<Rightarrow> (Inr Continue, t', cnt))
      else (Inr Continue, t, cnt))"

definition epoch_log :: "int \<Rightarrow> pynum pydict \<Rightarrow> pynum pydict" where
  "epoch_log epoch result = dict_update [(''epoch'', Fin (of_int epoch))] result"

text \<open>
  What the loop body does with the log record of an epoch: the monitoring block, then
  the checkpoint unless the loop breaks.
\<close>

definition evaluate_epoch ::
  "int \<Rightarrow> pynum pydict \<Rightarrow> ('c, 's) trainer \<Rightarrow> nat \<Rightarrow>
   (exn + flow) \<times> ('c, 's) trainer \<times> nat" where
  "evaluate_epoch epoch lg t cnt =
     (case (if mnt_mode t \<noteq> ''off'' then monitor_step t lg cnt
            else (Inr (False, False), t, cnt)) of
        (Inl e, t', c) \<Rightarrow> (Inl e, t', c)
      | (Inr (best, stop), t', c) \<Rightarrow>
          if stop then (Inr Break, t', c) else save_step epoch best t' c)"

definition epoch_body ::
  "('c, 's) hook \<Rightarrow> int \<Rightarrow> ('c, 's) trainer \<Rightarrow> nat \<Rightarrow>
   (exn + flow) \<times> ('c, 's) trainer \<times> nat" where
  "epoch_body hook epoch t cnt =
     (let t1 = t \<lparr> last_epoch := epoch \<rparr> in
      case hook epoch t1 of
        (Inl e, n) \<Rightarrow> (Inl e, t1 \<lparr> nets := n \<rparr>, cnt)
      | (Inr result, n) \<Rightarrow>
          (let t2 = t1 \<lparr> nets := n \<rparr>;
               lg = epoch_log epoch result;
               t3 = t2 \<lparr> logs := logs t2 @ map (\<lambda>(k, v). Info_kv k v) lg \<rparr>
           in evaluate_epoch epoch lg t3 cnt))"

datatype loop_end = Exhausted | Stopped | Raised exn

fun train_loop ::
  "('c, 's) hook \<Rightarrow> int list \<Rightarrow> ('c, 's) trainer \<Rightarrow> nat \<Rightarrow>
   loop_end \<times> ('c, 's) trainer \<times> nat" where
  "train_loop hook [] t cnt = (Exhausted, t, cnt)"
| "train_loop hook (e # es) t cnt =
     (case epoch_body hook e t cnt of
        (Inl x, t', c) \<Rightarrow> (Raised x, t', c)
      | (Inr Break, t', c) \<Rightarrow> (Stopped, t', c)
      | (Inr Continue, t', c) \<Rightarrow> train_loop hook es t' c)"

definition train_process ::
  "('c, 's) hook \<Rightarrow> ('c, 's) trainer \<Rightarrow> loop_end \<times> ('c, 's) trainer \<times> nat" where
  "train_process hook t = train_loop hook [start_epoch t .. epochs t] t 0"

text \<open>
  \<^verbatim>\<open>train\<close>: the handler of the interrupt logs, saves and raises the interrupt again;
  an error of the save leaves the handler in place of the interrupt.
\<close>

definition train :: "('c, 's) hook \<Rightarrow> ('c, 's) trainer \<Rightarrow> exn option \<times> ('c, 's) trainer" where
  "train hook t =
     (case train_process hook t of
        (Raised KeyboardInterrupt, t', c) \<Rightarrow>
          (let t'' = logger Info_saving_on_interrupt t'
           in case save_checkpoint (last_epoch t'') False False t'' of
                Inl e \<Rightarrow> (Some e, t'')
              | Inr t3 \<Rightarrow> (Some KeyboardInterrupt, t3))
      | (Raised e, t', c) \<Rightarrow> (Some e, t')
      | (Exhausted, t', c) \<Rightarrow> (None, t')
      | (Stopped, t', c) \<Rightarrow> (None, t'))"

section \<open>Resuming from a checkpoint\<close>

definition bindE :: "exn + 'a \<Rightarrow> ('a \<Rightarrow> exn + 'b) \<Rightarrow> exn + 'b" where
  "bindE r f = (case r of Inl e \<Rightarrow> Inl e | Inr x \<Rightarrow> f x)"

definition cfg_get :: "'c config \<Rightarrow> string \<Rightarrow> exn + 'c" where
  "cfg_get c k = (case map_of (entries c) k of None \<Rightarrow> Inl (KeyError k) | Some v \<Rightarrow> Inr v)"

text \<open>
  \<^verbatim>\<open>checkpoint["config"][k] != self.config[k]\<close> and the same with \<^verbatim>\<open>==\<close>: the
  checkpoint's entry is read first.
\<close>

definition cfg_ne :: "'c config \<Rightarrow> 'c config \<Rightarrow> string \<Rightarrow> exn + bool" where
  "cfg_ne ckc cur k = bindE (cfg_get ckc k) (\<lambda>a. bindE (cfg_get cur k) (\<lambda>b. Inr (a \<noteq> b)))"

definition cfg_eq :: "'c config \<Rightarrow> 'c config \<Rightarrow> string \<Rightarrow> exn + bool" where
  "cfg_eq ckc cur k = bindE (cfg_get ckc k) (\<lambda>a. bindE (cfg_get cur k) (\<lambda>b. Inr (a = b)))"

text \<open>
  \<^verbatim>\<open>load_state_dict\<close> of a collaborator installs the state it is given; a scheduler
  that is not attached raises before the checkpoint's entry is read.
\<close>

definition resume_g_optimizer ::
  "('c, 's) checkpoint \<Rightarrow> ('c, 's) trainer \<Rightarrow> exn + ('c, 's) trainer" where
  "resume_g_optimizer ck t =
     bindE (cfg_ne (ck_config ck) (config t) ''g_optimizer'') (\<lambda>changed.
       if changed then Inr (logger Warn_optimizer t)
       else
         (let t' = t \<lparr> nets := (nets t) \<lparr> g_optimizer := ck_g_optimizer ck \<rparr> \<rparr> in
          bindE (cfg_eq (ck_config ck) (config t') ''g_lr_scheduler'') (\<lambda>same.
            if same then
              (case g_lr_scheduler (nets t') of
                 None \<Rightarrow> Inl (AttributeError ''g_lr_scheduler'')
               | Some old \<Rightarrow>
                   (case ck_g_lr_scheduler ck of
                      None \<Rightarrow> Inl (KeyError ''g_lr_scheduler'')
                    | Some s \<Rightarrow> Inr (t' \<lparr> nets := (nets t') \<lparr> g_lr_scheduler := Some s \<rparr> \<rparr>)))
            else Inr t')))"

definition resume_d_optimizer ::
  "('c, 's) checkpoint \<Rightarrow> ('c, 's) trainer \<Rightarrow> exn + ('c, 's) trainer" where
  "resume_d_optimizer ck t =
     bindE (cfg_ne (ck_config ck) (config t) ''d_optimizer'') (\<lambda>changed.
       if changed then Inr (logger Warn_optimizer t)
       else
         (let t' = t \<lparr> nets := (nets t) \<lparr> d_optimizer := ck_d_optimizer ck \<rparr> \<rparr> in
          bindE (cfg_ne (ck_config ck) (config t') ''d_lr_scheduler'') (\<lambda>differs.
            if differs then
              (case d_lr_scheduler (nets t') of
                 None \<Rightarrow> Inl (AttributeError ''d_lr_scheduler'')
               | Some old \<Rightarrow>
                   (case ck_d_lr_scheduler ck of
                      None \<Rightarrow> Inl (KeyError ''d_lr_scheduler'')
                    | Some s \<Rightarrow> Inr (t' \<lparr> nets := (nets t') \<lparr> d_lr_scheduler := Some s \<rparr> \<rparr>)))
            else Inr t')))"

text \<open>
  The first half of \<^verbatim>\<open>_resume_checkpoint\<close>: the epoch counter, the best value, the
  architecture check (\<^verbatim>\<open>or\<close> reads its right operand only when the left is false)
  and the parameters of both networks.
\<close>

definition load_networks ::
  "('c, 's) checkpoint \<Rightarrow> ('c, 's) trainer \<Rightarrow> exn + ('c, 's) trainer" where
  "load_networks ck t =
     (let t1 = t \<lparr> start_epoch := ck_epoch ck + 1, mnt_best := ck_monitor_best ck \<rparr> in
      bindE (cfg_ne (ck_config ck) (config t1) ''generator'') (\<lambda>g_changed.
      bindE (if g_changed then Inr True
             else cfg_ne (ck_config ck) (config t1) ''discriminator'') (\<lambda>changed.
        (let t2 = (if changed then logger Warn_architecture t1 else t1);
             t3 = t2 \<lparr> nets := (nets t2) \<lparr> generator := ck_generator_state_dict ck \<rparr> \<rparr>
         in Inr (t3 \<lparr> nets := (nets t3) \<lparr> discriminator := ck_discriminator_state_dict ck \<rparr> \<rparr>)))))"

definition resume_checkpoint ::
  "string \<Rightarrow> ('c, 's) trainer \<Rightarrow> exn + ('c, 's) trainer" where
  "resume_checkpoint resume_path t =
     (let t0 = logger (Info_loading_checkpoint resume_path) t in
      case files t0 resume_path of
        None \<Rightarrow> Inl (FileNotFoundError resume_path)
      | Some ck \<Rightarrow>
          bindE (load_networks ck t0) (\<lambda>t4.
          bindE (resume_g_optimizer ck t4) (\<lambda>t5.
          bindE (resume_d_optimizer ck t5) (\<lambda>t6.
            Inr (logger (Info_checkpoint_loaded (start_epoch t6)) t6)))))"

section \<open>Construction\<close>

text \<open>
  \<^verbatim>\<open>__init__\<close>, given the collaborators, the class names of the two networks, the
  configuration, the files present and the write errors of the file system. The visualizer is built and not used here.
  \<open>init_fields\<close> is the constructor up to the resume.
\<close>

definition init_fields ::
  "'s nets \<Rightarrow> string \<Rightarrow> string \<Rightarrow> 'c config \<Rightarrow> (string \<rightharpoonup> ('c, 's) checkpoint) \<Rightarrow>
   (string \<rightharpoonup> string) \<Rightarrow> exn + ('c, 's) trainer" where
  "init_fields ns g_name d_name cfg fs we =
     (let cfg_trainer = trainer_section cfg;
          mon = (case cfg_monitor cfg_trainer of None \<Rightarrow> ''off'' | Some m \<Rightarrow> m);
          t = \<lparr> nets = ns, g_arch = g_name, d_arch = d_name, last_epoch = 0,
                config = cfg, epochs = cfg_epochs cfg_trainer,
                save_period = cfg_save_period cfg_trainer, monitor = mon,
                mnt_mode = ''off'', mnt_best = Fin 0, mnt_metric = None, early_stop = None,
                start_epoch = 1, checkpoint_dir = Path (cfg_save_dir cfg_trainer),
                files = fs, write_error = we, saves = [], logs = [] \<rparr>
      in if mon = ''off'' then Inr t
         else
           (case py_split mon of
              [mode, metric] \<Rightarrow>
                if mode = ''min'' \<or> mode = ''max'' then
                  (let es = (case cfg_early_stop cfg_trainer of None \<Rightarrow> PosInf | Some e \<Rightarrow> e)
                   in Inr (t \<lparr> mnt_mode := mode, mnt_metric := Some metric,
                               mnt_best := (if mode = ''min'' then PosInf else NegInf),
                               early_stop := Some (if py_le es (Fin 0) then PosInf else es) \<rparr>))
                else Inl AssertionError
            | _ \<Rightarrow> Inl ValueError))"

definition init ::
  "'s nets \<Rightarrow> string \<Rightarrow> string \<Rightarrow> 'c config \<Rightarrow> (string \<rightharpoonup> ('c, 's) checkpoint) \<Rightarrow>
   (string \<rightharpoonup> string) \<Rightarrow> exn + ('c, 's) trainer" where
  "init ns g_name d_name cfg fs we =
     bindE (init_fields ns g_name d_name cfg fs we)
       (\<lambda>t. case resume cfg of None \<Rightarrow> Inr t | Some p \<Rightarrow> resume_checkpoint p t)"

section \<open>Fields that a run never writes\<close>

text \<open>
  The loop and the resume write the collaborators, the last epoch, the monitor mode
  and best value, the start epoch, the files and the two traces. Every other field
  keeps the value the constructor gave it, and the write errors are not theirs to
  change.
\<close>

definition unchanged_setup :: "('c, 's) trainer \<Rightarrow> ('c, 's) trainer \<Rightarrow> bool" where
  "unchanged_setup t t' \<longleftrightarrow>
     g_arch t' = g_arch t \<and> d_arch t' = d_arch t \<and> config t' = config t \<and>
     epochs t' = epochs t \<and> save_period t' = save_period t \<and> monitor t' = monitor t \<and>
     mnt_metric t' = mnt_metric t \<and> early_stop t' = early_stop t \<and>
     checkpoint_dir t' = checkpoint_dir t \<and> write_error t' = write_error t"

section \<open>A small run\<close>

text \<open>
  A configuration that monitors \<^verbatim>\<open>min loss\<close> with patience 0 (that is, unbounded),
  three epochs, a checkpoint every second epoch; and the supervisor built from it.
\<close>

definition ex_cfg :: "nat config" where
  "ex_cfg =
     \<lparr> entries = [(''generator'', 1), (''discriminator'', 2), (''g_optimizer'', 3),
                  (''d_optimizer'', 4), (''g_lr_scheduler'', 5), (''d_lr_scheduler'', 6)],
       trainer_section =
         \<lparr> cfg_epochs = 3, cfg_save_period = 2, cfg_monitor = Some ''min loss'',
           cfg_early_stop = Some (Fin 0), cfg_save_dir = ''saved'' \<rparr>,
       resume = None \<rparr>"

definition ex_nets :: "nat nets" where
  "ex_nets =
     \<lparr> generator = 10, discriminator = 20, g_optimizer = 30, d_optimizer = 40,
       g_lr_scheduler = Some 50, d_lr_scheduler = Some 60 \<rparr>"

definition ex_trainer :: "(nat, nat) trainer" where
  "ex_trainer =
     \<lparr> nets = ex_nets, g_arch = ''G'', d_arch = ''D'', last_epoch = 0,
       config = ex_cfg, epochs = 3, save_period = 2, monitor = ''min loss'',
       mnt_mode = ''min'', mnt_best = PosInf, mnt_metric = Some ''loss'',
       early_stop = Some PosInf, start_epoch = 1,
       checkpoint_dir = \<lparr> root = [], parts = [''saved''] \<rparr>,
       files = Map.empty, write_error = Map.empty, saves = [], logs = [] \<rparr>"

text \<open>
  Hooks that leave the networks alone: every epoch reports the loss 2.0; the loss is
  the epoch number, so it gets worse; the result has no loss at all; the third epoch is
  interrupted; every epoch is interrupted.
\<close>

definition ex_hook :: "(nat, nat) hook" where
  "ex_hook e t = (Inr [(''loss'', Fin 2)], nets t)"

definition ex_worse_hook :: "(nat, nat) hook" where
  "ex_worse_hook e t = (Inr [(''loss'', Fin (of_int e))], nets t)"

definition ex_other_hook :: "(nat, nat) hook" where
  "ex_other_hook e t = (Inr [(''accuracy'', Fin 1)], nets t)"

definition ex_interrupt_hook :: "(nat, nat) hook" where
  "ex_interrupt_hook e t =
     (if e = 3 then (Inl KeyboardInterrupt, nets t)
      else (Inr [(''loss'', Fin (of_int e))], nets t))"

definition ex_interrupt_at_once :: "(nat, nat) hook" where
  "ex_interrupt_at_once e t = (Inl KeyboardInterrupt, nets t)"

text \<open>
  Variants of the supervisor: patience 1 with best value 1.0; the monitor
  \<^verbatim>\<open>max epoch\<close>; no monitoring; four epochs with patience 1.
\<close>

definition ex_patient :: "(nat, nat) trainer" where
  "ex_patient = ex_trainer \<lparr> early_stop := Some (Fin 1), mnt_best := Fin 1 \<rparr>"

definition ex_epoch_monitor :: "(nat, nat) trainer" where
  "ex_epoch_monitor =
     ex_trainer \<lparr> monitor := ''max epoch'', mnt_mode := ''max'', mnt_best := NegInf,
                  mnt_metric := Some ''epoch'' \<rparr>"

definition ex_unmonitored :: "(nat, nat) trainer" where
  "ex_unmonitored =
     ex_trainer \<lparr> monitor := ''off'', mnt_mode := ''off'', mnt_best := Fin 0,
                  mnt_metric := None, early_stop := None \<rparr>"

definition ex_long :: "(nat, nat) trainer" where
  "ex_long = ex_trainer \<lparr> epochs := 4, early_stop := Some (Fin 1) \<rparr>"

text \<open>
  The same configuration with patience 1, the supervisor built from it, and a
  supervisor whose checkpoint directory does not exist, so that every write fails.
\<close>

definition ex_cfg_patience :: "nat config" where
  "ex_cfg_patience =
     ex_cfg \<lparr> trainer_section := (trainer_section ex_cfg) \<lparr> cfg_early_stop := Some (Fin 1) \<rparr> \<rparr>"

definition ex_configured :: "(nat, nat) trainer" where
  "ex_configured = ex_trainer \<lparr> config := ex_cfg_patience, early_stop := Some (Fin 1) \<rparr>"

definition ex_no_directory :: "(nat, nat) trainer" where
  "ex_no_directory =
     ex_trainer \<lparr> write_error := (\<lambda>p. Some ''Parent directory saved does not exist.'') \<rparr>"

text \<open>
  A checkpoint of epoch 7 written under the same configuration, a supervisor that
  finds it on disk, one that runs to epoch 8 with patience 1, and a configuration whose
  two optimizer entries have changed since.
\<close>

definition ex_checkpoint :: "(nat, nat) checkpoint" where
  "ex_checkpoint =
     \<lparr> ck_g_arch = ''G'', ck_d_arch = ''D'', ck_epoch = 7,
       ck_generator_state_dict = 11, ck_discriminator_state_dict = 21,
       ck_g_optimizer = 31, ck_d_optimizer = 41, ck_monitor_best = Fin (1 / 2),
       ck_config = ex_cfg, ck_d_lr_scheduler = Some 61, ck_g_lr_scheduler = Some 51 \<rparr>"

definition ex_stored :: "(nat, nat) trainer" where
  "ex_stored = ex_trainer \<lparr> files := [''ck.pth'' \<mapsto> ex_checkpoint] \<rparr>"

definition ex_resumable :: "(nat, nat) trainer" where
  "ex_resumable = ex_stored \<lparr> epochs := 8, early_stop := Some (Fin 1) \<rparr>"

definition ex_cfg_new_optimizers :: "nat config" where
  "ex_cfg_new_optimizers =
     ex_cfg \<lparr> entries := [(''generator'', 1), (''discriminator'', 2), (''g_optimizer'', 33),
                  (''d_optimizer'', 44), (''g_lr_scheduler'', 5), (''d_lr_scheduler'', 6)] \<rparr>"

definition ex_reconfigured :: "(nat, nat) trainer" where
  "ex_reconfigured = ex_stored \<lparr> config := ex_cfg_new_optimizers \<rparr>"

section \<open>Lookups in the log record\<close>

declare str_nat.simps [simp del]

lemma map_of_dict_set: "map_of (dict_set k v d) = (map_of d)(k \<mapsto> v)"
  by (induction d) (auto simp: fun_upd_twist)

lemma map_of_dict_update: "map_of (dict_update d r) = map_of d ++ map_of (rev r)"
  unfolding dict_update_def
proof (induction r arbitrary: d)
  case Nil
  show ?case by simp
next
  case (Cons p r)
  obtain k v where p: "p = (k, v)" by (cases p)
  have "map_of (dict_set k v d) ++ map_of (rev r) = map_of d ++ map_of (rev r @ [(k, v)])"
    by (rule ext) (simp add: map_of_dict_set map_add_def split: option.splits)
  then show ?case
    by (simp add: p Cons.IH)
qed

lemma map_of_rev_distinct:
  assumes "distinct (map fst r)" and "map_of r m = Some v"
  shows "map_of (rev r) m = Some v"
proof -
  have "distinct (map fst (rev r))"
    using assms(1) by (simp add: rev_map[symmetric])
  moreover have "(m, v) \<in> set (rev r)"
    using assms(2) by (simp add: map_of_SomeD)
  ultimately show ?thesis
    by (simp only: map_of_eq_Some_iff)
qed

text \<open>A metric of the epoch's result is found in the log record with its value.\<close>

lemma map_of_epoch_log_present:
  assumes "distinct (map fst result)" and "map_of result m = Some v"
  shows "map_of (epoch_log epoch result) m = Some v"
  using map_of_rev_distinct[OF assms]
  by (simp add: epoch_log_def map_of_dict_update map_add_Some_iff)

lemma map_of_rev_absent:
  assumes "map_of r m = None"
  shows "map_of (rev r) m = None"
  using assms by (simp add: map_of_eq_None_iff)

text \<open>
  A name that the result lacks is missing from the log record too, unless it is
  \<^verbatim>\<open>epoch\<close>: the record starts from the epoch number.
\<close>

lemma map_of_epoch_log_absent:
  assumes "map_of result m = None" and "m \<noteq> ''epoch''"
  shows "map_of (epoch_log epoch result) m = None"
  using map_of_rev_absent[OF assms(1)] assms(2)
  by (simp add: epoch_log_def map_of_dict_update map_add_def)

lemma map_of_epoch_log_epoch:
  assumes "map_of result ''epoch'' = None"
  shows "map_of (epoch_log epoch result) ''epoch'' = Some (Fin (of_int epoch))"
  using map_of_rev_absent[OF assms]
  by (simp add: epoch_log_def map_of_dict_update map_add_def)

section \<open>Unfolding the definitions\<close>

lemmas body_defs =
  epoch_body_def evaluate_epoch_def monitor_step_def count_improvement_def
  early_stop_check_def save_step_def save_checkpoint_def logger_def check_improved_def
  Let_def

lemmas eval_defs = body_defs epoch_log_def dict_update_def py_gt_def py_ge_def

lemmas resume_defs = bindE_def cfg_ne_def cfg_eq_def cfg_get_def logger_def Let_def

lemmas resume_eval = resume_checkpoint_def load_networks_def resume_g_optimizer_def
  resume_d_optimizer_def resume_defs

lemmas ex_defs = ex_trainer_def ex_cfg_def ex_nets_def ex_hook_def ex_worse_hook_def
  ex_other_hook_def ex_interrupt_hook_def ex_patient_def ex_epoch_monitor_def
  ex_unmonitored_def ex_long_def ex_checkpoint_def ex_stored_def ex_resumable_def
  ex_cfg_new_optimizers_def ex_reconfigured_def ex_interrupt_at_once_def
  ex_cfg_patience_def ex_configured_def ex_no_directory_def

lemma upto_examples:
  "[1..3] = [1, 2, 3 :: int]" "[1..4] = [1, 2, 3, 4 :: int]" "[8..8] = [8 :: int]"
  by (simp_all add: upto.simps)

lemmas run_defs = eval_defs train_process_def train_def init_def init_fields_def
  py_split_def is_space_def bindE_def Path_def path_root_def upto_examples

section \<open>The loop body, step by step\<close>

text \<open>
  Each function of the loop body is described once: which fields it leaves alone, what
  it returns, what it raises. The statements about the whole body and the loop follow
  from these.
\<close>

lemma unchanged_setup_refl: "unchanged_setup t t"
  by (simp add: unchanged_setup_def)

lemma unchanged_setup_trans:
  "unchanged_setup t t' \<Longrightarrow> unchanged_setup t' t'' \<Longrightarrow> unchanged_setup t t''"
  by (simp add: unchanged_setup_def)

lemma py_gt_PosInf: "\<not> py_gt a PosInf"
  by (cases a) (simp_all add: py_gt_def)

subsection \<open>The early-stop test\<close>

lemma early_stop_check_frame:
  assumes "early_stop_check t c b = (r, t', c')"
  shows "unchanged_setup t t' \<and> nets t' = nets t \<and> last_epoch t' = last_epoch t \<and>
         mnt_mode t' = mnt_mode t \<and> mnt_best t' = mnt_best t \<and>
         files t' = files t \<and> saves t' = saves t \<and> c' = c"
  using assms
  by (auto simp: early_stop_check_def unchanged_setup_def logger_def
      split: option.splits if_splits)

lemma early_stop_check_result:
  assumes "early_stop_check t c b = (r, t', c')"
  shows "(case early_stop t of
            None \<Rightarrow> r = Inl (AttributeError ''early_stop'') \<and> t' = t
          | Some es \<Rightarrow>
              r = Inr (b, py_gt (Fin (real c)) es) \<and>
              t' = (if py_gt (Fin (real c)) es then logger (Info_training_stops es) t else t))"
  using assms
  by (auto simp: early_stop_check_def split: option.splits if_splits)

subsection \<open>Counting an improvement\<close>

lemma count_improvement_frame:
  assumes "count_improvement t lg i c = (r, t', c')"
  shows "unchanged_setup t t' \<and> nets t' = nets t \<and> last_epoch t' = last_epoch t \<and>
         mnt_mode t' = mnt_mode t \<and> files t' = files t \<and> saves t' = saves t"
proof (cases "i \<and> (\<exists>m v. mnt_metric t = Some m \<and> map_of lg m = Some v)")
  case True
  then obtain m v where "mnt_metric t = Some m" "map_of lg m = Some v" "i" by auto
  with assms have "early_stop_check (t \<lparr> mnt_best := v \<rparr>) 0 True = (r, t', c')"
    by (simp add: count_improvement_def)
  from early_stop_check_frame[OF this] show ?thesis
    by (simp add: unchanged_setup_def)
next
  case False
  show ?thesis
  proof (cases i)
    case True
    with False assms show ?thesis
      by (auto simp: count_improvement_def unchanged_setup_def split: option.splits)
  next
    case False
    with assms have "early_stop_check t (c + 1) False = (r, t', c')"
      by (simp add: count_improvement_def)
    from early_stop_check_frame[OF this] show ?thesis
      by simp
  qed
qed

lemma count_improvement_flow:
  assumes "count_improvement t lg i c = (Inr (b, stop), t', c')"
  shows "b = i \<and> (\<exists>es. early_stop t = Some es \<and> stop = py_gt (Fin (real c')) es \<and>
           logs t' = logs t @ (if stop then [Info_training_stops es] else []))"
  using assms
  by (auto simp: count_improvement_def early_stop_check_def logger_def
      split: option.splits if_splits)

lemma count_improvement_exn:
  assumes "count_improvement t lg i c = (Inl x, t', c')"
  shows "x \<noteq> KeyboardInterrupt"
  using assms
  by (auto simp: count_improvement_def early_stop_check_def
      split: option.splits if_splits)

lemma count_improvement_False:
  assumes "count_improvement t lg False c = (r, t', c')"
  shows "c' = c + 1 \<and> mnt_best t' = mnt_best t"
  using assms
  by (auto simp: count_improvement_def early_stop_check_def logger_def
      split: option.splits if_splits)

lemma count_improvement_logs:
  assumes "count_improvement t lg i c = (r, t', c')"
  shows "set (logs t) \<subseteq> set (logs t')"
  using assms
  by (auto simp: count_improvement_def early_stop_check_def logger_def
      split: option.splits if_splits)

lemma count_improvement_best_counter:
  assumes "count_improvement t lg i c1 = (r1, t1, x1)"
    and "count_improvement t lg i c2 = (r2, t2, x2)"
  shows "mnt_best t1 = mnt_best t2"
  using assms
  by (auto simp: count_improvement_def early_stop_check_def logger_def
      split: option.splits if_splits)

subsection \<open>The monitoring block\<close>

text \<open>
  The monitoring block without the detour through the exception: it is one call of
  \<open>count_improvement\<close>, or the \<^verbatim>\<open>AttributeError\<close> of a metric name never set.
\<close>

lemma monitor_step_alt:
  "monitor_step t lg c =
     (if mnt_mode t = ''min'' \<or> mnt_mode t = ''max'' then
        (case mnt_metric t of
           None \<Rightarrow> (Inl (AttributeError ''mnt_metric''), t, c)
         | Some m \<Rightarrow>
             (case map_of lg m of
                None \<Rightarrow>
                  count_improvement
                    ((logger (Warn_metric_not_found m) t) \<lparr> mnt_mode := ''off'' \<rparr>) lg False c
              | Some v \<Rightarrow>
                  count_improvement t lg
                    (if mnt_mode t = ''min'' then py_le v (mnt_best t)
                     else py_ge v (mnt_best t)) c))
      else count_improvement t lg False c)"
  by (simp add: monitor_step_def check_improved_def split: option.splits)

lemma monitor_step_cases:
  assumes "monitor_step t lg c = (r, t', c')"
  obtains (unset) "mnt_metric t = None" "r = Inl (AttributeError ''mnt_metric'')" "t' = t" "c' = c"
  | (missing) m where "mnt_metric t = Some m" "map_of lg m = None"
      "mnt_mode t = ''min'' \<or> mnt_mode t = ''max''"
      "count_improvement ((logger (Warn_metric_not_found m) t) \<lparr> mnt_mode := ''off'' \<rparr>)
         lg False c = (r, t', c')"
  | (tested) i where "check_improved t lg = Inr i" "count_improvement t lg i c = (r, t', c')"
  using assms
  by (auto simp: monitor_step_alt check_improved_def split: option.splits if_splits)

lemma monitor_step_frame:
  assumes "monitor_step t lg c = (r, t', c')"
  shows "unchanged_setup t t' \<and> nets t' = nets t \<and> last_epoch t' = last_epoch t \<and>
         files t' = files t \<and> saves t' = saves t \<and>
         (mnt_mode t' = mnt_mode t \<or> mnt_mode t' = ''off'')"
  using assms
proof (cases rule: monitor_step_cases)
  case unset
  then show ?thesis by (simp add: unchanged_setup_refl)
next
  case (missing m)
  from count_improvement_frame[OF missing(4)] show ?thesis
    by (simp add: unchanged_setup_def logger_def)
next
  case (tested i)
  from count_improvement_frame[OF tested(2)] show ?thesis by simp
qed

lemma monitor_step_flow:
  assumes "monitor_step t lg c = (Inr (b, stop), t', c')"
  shows "b = (check_improved t lg = Inr True) \<and>
         (\<exists>es. early_stop t = Some es \<and> stop = py_gt (Fin (real c')) es \<and>
            (stop \<longrightarrow> logs t' \<noteq> [] \<and> last (logs t') = Info_training_stops es))"
  using assms
proof (cases rule: monitor_step_cases)
  case unset
  then show ?thesis by simp
next
  case (missing m)
  then have "check_improved t lg = Inl (KeyError m)"
    by (auto simp: check_improved_def)
  with count_improvement_flow[OF missing(4)] show ?thesis
    by (auto simp: logger_def)
next
  case (tested i)
  with count_improvement_flow[OF tested(2)] show ?thesis by auto
qed

lemma monitor_step_exn:
  assumes "monitor_step t lg c = (Inl x, t', c')"
  shows "x \<noteq> KeyboardInterrupt"
  using assms
proof (cases rule: monitor_step_cases)
  case unset
  then show ?thesis by simp
next
  case (missing m)
  from count_improvement_exn[OF missing(4)] show ?thesis .
next
  case (tested i)
  from count_improvement_exn[OF tested(2)] show ?thesis .
qed

lemma monitor_step_missing:
  assumes mode: "mnt_mode t = ''min'' \<or> mnt_mode t = ''max''"
    and metric: "mnt_metric t = Some m"
    and missing: "map_of lg m = None"
    and step: "monitor_step t lg c = (r, t', c')"
  shows "Warn_metric_not_found m \<in> set (logs t') \<and> mnt_mode t' = ''off'' \<and>
         c' = c + 1 \<and> mnt_best t' = mnt_best t"
proof -
  let ?t = "(logger (Warn_metric_not_found m) t) \<lparr> mnt_mode := ''off'' \<rparr>"
  have ci: "count_improvement ?t lg False c = (r, t', c')"
    using assms by (auto simp: monitor_step_alt)
  from count_improvement_logs[OF ci] count_improvement_frame[OF ci]
    count_improvement_False[OF ci]
  show ?thesis
    by (auto simp: logger_def)
qed

lemma monitor_step_shape:
  "(\<forall>c. monitor_step t lg c = (Inl (AttributeError ''mnt_metric''), t, c)) \<or>
   (\<exists>t0 i. \<forall>c. monitor_step t lg c = count_improvement t0 lg i c)"
proof (cases "mnt_mode t = ''min'' \<or> mnt_mode t = ''max''")
  case False
  then have "\<forall>c. monitor_step t lg c = count_improvement t lg False c"
    by (simp add: monitor_step_alt)
  then show ?thesis by blast
next
  case True
  show ?thesis
  proof (cases "mnt_metric t")
    case None
    with True have "\<forall>c. monitor_step t lg c = (Inl (AttributeError ''mnt_metric''), t, c)"
      by (simp add: monitor_step_alt)
    then show ?thesis by blast
  next
    case (Some m)
    show ?thesis
    proof (cases "map_of lg m")
      case None
      with True Some
      have "\<forall>c. monitor_step t lg c =
              count_improvement ((logger (Warn_metric_not_found m) t) \<lparr> mnt_mode := ''off'' \<rparr>)
                lg False c"
        by (simp add: monitor_step_alt)
      then show ?thesis by blast
    next
      case (Some v)
      with True \<open>mnt_metric t = Some m\<close>
      have "\<forall>c. monitor_step t lg c =
              count_improvement t lg
                (if mnt_mode t = ''min'' then py_le v (mnt_best t) else py_ge v (mnt_best t)) c"
        by (simp add: monitor_step_alt)
      then show ?thesis by blast
    qed
  qed
qed

lemma monitor_step_best_counter:
  assumes "monitor_step t lg c1 = (r1, t1, x1)"
    and "monitor_step t lg c2 = (r2, t2, x2)"
  shows "mnt_best t1 = mnt_best t2"
  using monitor_step_shape[of t lg] assms
  by (auto dest: count_improvement_best_counter)

subsection \<open>The checkpoint at the end of the body\<close>

lemma checkpoint_state_cong:
  assumes "g_arch t' = g_arch t" "d_arch t' = d_arch t" "nets t' = nets t"
    "mnt_best t' = mnt_best t" "config t' = config t"
  shows "checkpoint_state t' e = checkpoint_state t e"
  using assms by (simp add: checkpoint_state_def)

lemma save_checkpoint_frame:
  assumes "save_checkpoint e sb ob t = Inr t'"
  shows "unchanged_setup t t' \<and> nets t' = nets t \<and> last_epoch t' = last_epoch t \<and>
         mnt_mode t' = mnt_mode t \<and> mnt_best t' = mnt_best t"
  using assms
  by (auto simp: save_checkpoint_def logger_def Let_def unchanged_setup_def
      split: option.splits)

lemma save_checkpoint_saves:
  assumes "save_checkpoint e sb ob t = Inr t'"
  shows "write_error t (checkpoint_filename (checkpoint_dir t) e) = None \<and>
         saves t' =
           saves t @ [(checkpoint_filename (checkpoint_dir t) e, checkpoint_state t e)] \<and>
         files t' =
           (files t)(checkpoint_filename (checkpoint_dir t) e \<mapsto> checkpoint_state t e) \<and>
         logs t' =
           logs t @ [Info_saving_checkpoint (checkpoint_filename (checkpoint_dir t) e)]"
  using assms
  by (auto simp: save_checkpoint_def logger_def Let_def split: option.splits)

lemma save_checkpoint_raises:
  assumes "save_checkpoint e sb ob t = Inl x"
  shows "\<exists>msg. write_error t (checkpoint_filename (checkpoint_dir t) e) = Some msg \<and>
           x = RuntimeError msg"
  using assms
  by (auto simp: save_checkpoint_def Let_def split: option.splits)

lemma save_checkpoint_succeeds:
  assumes "write_error t (checkpoint_filename (checkpoint_dir t) e) = None"
  shows "\<not> isl (save_checkpoint e sb ob t)"
  using assms by (simp add: save_checkpoint_def Let_def)

lemma checkpoint_state_saved:
  assumes "save_checkpoint e sb ob t = Inr t'"
  shows "checkpoint_state t' e' = checkpoint_state t e'"
  using assms
  by (auto simp: save_checkpoint_def logger_def Let_def checkpoint_state_def
      split: option.splits)

text \<open>
  The last statement either raises and leaves the state as it is, or goes on, with
  the checkpoint written when the period or the best flag asks for it.
\<close>

lemma save_step_cases:
  assumes "save_step e b t c = (r, t', c')"
  obtains (raised) x where "r = Inl x" "t' = t" "c' = c" "x \<noteq> KeyboardInterrupt"
  | (skipped) "r = Inr Continue" "t' = t" "c' = c" "save_period t \<noteq> 0"
      "\<not> (e mod save_period t = 0 \<or> b)"
  | (saved) "r = Inr Continue" "c' = c" "save_period t \<noteq> 0" "e mod save_period t = 0 \<or> b"
      "save_checkpoint e b True t = Inr t'"
proof (cases "save_period t = 0")
  case True
  with assms have "r = Inl ZeroDivisionError" "t' = t" "c' = c"
    by (simp_all add: save_step_def)
  then show ?thesis by (auto intro: raised)
next
  case sp: False
  show ?thesis
  proof (cases "e mod save_period t = 0 \<or> b")
    case False
    with sp assms have "r = Inr Continue" "t' = t" "c' = c"
      by (auto simp: save_step_def)
    with sp False show ?thesis by (auto intro: skipped)
  next
    case True
    show ?thesis
    proof (cases "save_checkpoint e b True t")
      case (Inl x)
      with sp True assms have "r = Inl x" "t' = t" "c' = c"
        by (auto simp: save_step_def)
      moreover from save_checkpoint_raises[OF Inl] have "x \<noteq> KeyboardInterrupt"
        by auto
      ultimately show ?thesis by (auto intro: raised)
    next
      case (Inr t2)
      with sp True assms have "r = Inr Continue" "t' = t2" "c' = c"
        by (auto simp: save_step_def)
      with sp True Inr show ?thesis by (auto intro: saved)
    qed
  qed
qed

lemma save_step_frame:
  assumes "save_step e b t c = (r, t', c')"
  shows "unchanged_setup t t' \<and> nets t' = nets t \<and> last_epoch t' = last_epoch t \<and>
         mnt_mode t' = mnt_mode t \<and> mnt_best t' = mnt_best t \<and> c' = c"
  using assms
proof (cases rule: save_step_cases)
  case (raised x)
  then show ?thesis by (simp add: unchanged_setup_refl)
next
  case skipped
  then show ?thesis by (simp add: unchanged_setup_refl)
next
  case saved
  from save_checkpoint_frame[OF saved(5)] saved(2) show ?thesis by simp
qed

lemma save_step_result:
  assumes "save_step e b t c = (r, t', c')"
  shows "(t' = t \<and> (\<exists>x. r = Inl x \<and> x \<noteq> KeyboardInterrupt)) \<or>
         (save_period t \<noteq> 0 \<and> r = Inr Continue \<and>
          saves t' = saves t @
            (if e mod save_period t = 0 \<or> b
             then [(checkpoint_filename (checkpoint_dir t) e, checkpoint_state t' e)] else []))"
  using assms
proof (cases rule: save_step_cases)
  case (raised x)
  then show ?thesis by simp
next
  case skipped
  then show ?thesis by simp
next
  case saved
  from save_checkpoint_saves[OF saved(5)] checkpoint_state_saved[OF saved(5)] saved(1,3,4)
  show ?thesis by simp
qed

lemma save_step_logs:
  assumes "save_step e b t c = (r, t', c')"
  shows "set (logs t) \<subseteq> set (logs t')"
  using assms
proof (cases rule: save_step_cases)
  case (raised x)
  then show ?thesis by simp
next
  case skipped
  then show ?thesis by simp
next
  case saved
  from save_checkpoint_saves[OF saved(5)] show ?thesis by auto
qed

subsection \<open>The body after the hook\<close>

lemma evaluate_epoch_cases:
  assumes "evaluate_epoch e lg t c = (r, t', c')"
  obtains (off) "mnt_mode t = ''off''" "save_step e False t c = (r, t', c')"
  | (raised) x where "mnt_mode t \<noteq> ''off''" "monitor_step t lg c = (Inl x, t', c')" "r = Inl x"
  | (break) b where "mnt_mode t \<noteq> ''off''" "monitor_step t lg c = (Inr (b, True), t', c')"
      "r = Inr Break"
  | (checked) b tm cm where "mnt_mode t \<noteq> ''off''"
      "monitor_step t lg c = (Inr (b, False), tm, cm)" "save_step e b tm cm = (r, t', c')"
  using assms
  by (auto simp: evaluate_epoch_def split: if_splits prod.splits sum.splits)

lemma evaluate_epoch_frame:
  assumes "evaluate_epoch e lg t c = (r, t', c')"
  shows "unchanged_setup t t' \<and> nets t' = nets t \<and> last_epoch t' = last_epoch t \<and>
         (mnt_mode t' = mnt_mode t \<or> mnt_mode t' = ''off'')"
  using assms
proof (cases rule: evaluate_epoch_cases)
  case off
  from save_step_frame[OF off(2)] show ?thesis by simp
next
  case (raised x)
  from monitor_step_frame[OF raised(2)] show ?thesis by simp
next
  case (break b)
  from monitor_step_frame[OF break(2)] show ?thesis by simp
next
  case (checked b tm cm)
  from monitor_step_frame[OF checked(2)] save_step_frame[OF checked(3)] show ?thesis
    by (auto intro: unchanged_setup_trans)
qed

lemma evaluate_epoch_off:
  assumes "mnt_mode t = ''off''" and "evaluate_epoch e lg t c = (r, t', c')"
  shows "mnt_mode t' = ''off'' \<and> mnt_best t' = mnt_best t \<and> c' = c \<and> r \<noteq> Inr Break"
proof -
  from assms have s: "save_step e False t c = (r, t', c')"
    by (simp add: evaluate_epoch_def)
  from save_step_frame[OF s] save_step_result[OF s] assms(1) show ?thesis
    by auto
qed

lemma evaluate_epoch_flow:
  assumes "evaluate_epoch e lg t c = (Inr fl, t', c')"
  shows "((fl = Break) =
           (mnt_mode t \<noteq> ''off'' \<and> (\<exists>es. early_stop t = Some es \<and> py_gt (Fin (real c')) es))) \<and>
         (fl = Break \<longrightarrow> saves t' = saves t \<and> files t' = files t \<and>
           (\<exists>es. early_stop t = Some es \<and> logs t' \<noteq> [] \<and>
              last (logs t') = Info_training_stops es))"
  using assms
proof (cases rule: evaluate_epoch_cases)
  case off
  from save_step_result[OF off(2)] off(1) show ?thesis
    by auto
next
  case (raised x)
  then show ?thesis
    by auto
next
  case (break b)
  from monitor_step_flow[OF break(2)] monitor_step_frame[OF break(2)] break(1,3)
  show ?thesis
    by auto
next
  case (checked b tm cm)
  from monitor_step_flow[OF checked(2)] save_step_result[OF checked(3)]
    save_step_frame[OF checked(3)] checked(1)
  show ?thesis
    by auto
qed

lemma evaluate_epoch_exn:
  assumes "evaluate_epoch e lg t c = (Inl x, t', c')"
  shows "x \<noteq> KeyboardInterrupt"
  using assms
proof (cases rule: evaluate_epoch_cases)
  case off
  from save_step_result[OF off(2)] show ?thesis by auto
next
  case (raised y)
  from monitor_step_exn[OF raised(2)] raised(3) show ?thesis by simp
next
  case (break b)
  then show ?thesis by simp
next
  case (checked b tm cm)
  from save_step_result[OF checked(3)] show ?thesis by auto
qed

lemma evaluate_epoch_saves:
  assumes "evaluate_epoch e lg t c = (r, t', c')"
  shows "saves t' = saves t @
           (if r = Inr Continue \<and>
               (e mod save_period t = 0 \<or>
                (mnt_mode t \<noteq> ''off'' \<and> check_improved t lg = Inr True))
            then [(checkpoint_filename (checkpoint_dir t) e, checkpoint_state t' e)] else [])"
  using assms
proof (cases rule: evaluate_epoch_cases)
  case off
  from save_step_result[OF off(2)] off(1) show ?thesis by auto
next
  case (raised x)
  from monitor_step_frame[OF raised(2)] raised(3) show ?thesis by simp
next
  case (break b)
  from monitor_step_frame[OF break(2)] break(3) show ?thesis by simp
next
  case (checked b tm cm)
  from monitor_step_frame[OF checked(2)] monitor_step_flow[OF checked(2)]
    save_step_result[OF checked(3)] checked(1)
  show ?thesis by (auto simp: unchanged_setup_def)
qed

lemma evaluate_epoch_missing:
  assumes mode: "mnt_mode t = ''min'' \<or> mnt_mode t = ''max''"
    and metric: "mnt_metric t = Some m"
    and missing: "map_of lg m = None"
    and ev: "evaluate_epoch e lg t c = (r, t', c')"
  shows "Warn_metric_not_found m \<in> set (logs t') \<and> mnt_mode t' = ''off'' \<and>
         c' = c + 1 \<and> mnt_best t' = mnt_best t"
  using ev
proof (cases rule: evaluate_epoch_cases)
  case off
  with mode show ?thesis by auto
next
  case (raised x)
  from monitor_step_missing[OF mode metric missing raised(2)] show ?thesis .
next
  case (break b)
  from monitor_step_missing[OF mode metric missing break(2)] show ?thesis .
next
  case (checked b tm cm)
  from monitor_step_missing[OF mode metric missing checked(2)]
    save_step_frame[OF checked(3)] save_step_logs[OF checked(3)]
  show ?thesis by auto
qed

lemma evaluate_epoch_best:
  assumes "evaluate_epoch e lg t c = (r, t', c')"
  shows "if mnt_mode t = ''off'' then mnt_best t' = mnt_best t
         else mnt_best t' = mnt_best (fst (snd (monitor_step t lg c)))"
  using assms
proof (cases rule: evaluate_epoch_cases)
  case off
  from save_step_frame[OF off(2)] off(1) show ?thesis by simp
next
  case (raised x)
  then show ?thesis by simp
next
  case (break b)
  then show ?thesis by simp
next
  case (checked b tm cm)
  from save_step_frame[OF checked(3)] checked(1,2) show ?thesis by simp
qed

lemma evaluate_epoch_best_counter:
  assumes 1: "evaluate_epoch e lg t c1 = (r1, t1, x1)"
    and 2: "evaluate_epoch e lg t c2 = (r2, t2, x2)"
  shows "mnt_best t1 = mnt_best t2"
proof (cases "mnt_mode t = ''off''")
  case True
  with evaluate_epoch_best[OF 1] evaluate_epoch_best[OF 2] show ?thesis by simp
next
  case False
  have "mnt_best (fst (snd (monitor_step t lg c1))) = mnt_best (fst (snd (monitor_step t lg c2)))"
    by (rule monitor_step_best_counter[of t lg c1 "fst (monitor_step t lg c1)" _
          "snd (snd (monitor_step t lg c1))" c2 "fst (monitor_step t lg c2)" _
          "snd (snd (monitor_step t lg c2))"]) simp_all
  with False evaluate_epoch_best[OF 1] evaluate_epoch_best[OF 2] show ?thesis by simp
qed

subsection \<open>The whole body\<close>

lemma check_improved_cong:
  assumes "mnt_mode t' = mnt_mode t" "mnt_metric t' = mnt_metric t" "mnt_best t' = mnt_best t"
  shows "check_improved t' lg = check_improved t lg"
  unfolding check_improved_def assms ..

lemma epoch_body_cases:
  assumes "epoch_body hook e t c = (r, t', c')"
  obtains (hook_raised) x n where "hook e (t \<lparr> last_epoch := e \<rparr>) = (Inl x, n)"
      "r = Inl x" "t' = t \<lparr> last_epoch := e, nets := n \<rparr>" "c' = c"
  | (evaluated) result n t3 where "hook e (t \<lparr> last_epoch := e \<rparr>) = (Inr result, n)"
      "t3 = t \<lparr> last_epoch := e, nets := n,
                logs := logs t @ map (\<lambda>(k, v). Info_kv k v) (epoch_log e result) \<rparr>"
      "evaluate_epoch e (epoch_log e result) t3 c = (r, t', c')"
  using assms
  by (auto simp: epoch_body_def Let_def split: prod.splits sum.splits)

lemma epoch_body_frame:
  assumes "epoch_body hook e t c = (r, t', c')"
  shows "unchanged_setup t t' \<and> last_epoch t' = e \<and>
         (mnt_mode t' = mnt_mode t \<or> mnt_mode t' = ''off'')"
  using assms
proof (cases rule: epoch_body_cases)
  case (hook_raised x n)
  then show ?thesis by (simp add: unchanged_setup_def)
next
  case (evaluated result n t3)
  from evaluate_epoch_frame[OF evaluated(3)] show ?thesis
    by (simp add: evaluated(2) unchanged_setup_def)
qed

lemma epoch_body_off:
  assumes "mnt_mode t = ''off''" and "epoch_body hook e t c = (r, t', c')"
  shows "mnt_mode t' = ''off'' \<and> mnt_best t' = mnt_best t \<and> c' = c \<and> r \<noteq> Inr Break"
  using assms(2)
proof (cases rule: epoch_body_cases)
  case (hook_raised x n)
  with assms(1) show ?thesis by simp
next
  case (evaluated result n t3)
  have "mnt_mode t3 = ''off''"
    using assms(1) by (simp add: evaluated(2))
  from evaluate_epoch_off[OF this evaluated(3)] show ?thesis
    by (simp add: evaluated(2))
qed

lemma epoch_body_flow:
  assumes "epoch_body hook e t c = (Inr fl, t', c')"
  shows "((fl = Break) =
           (mnt_mode t \<noteq> ''off'' \<and> (\<exists>es. early_stop t = Some es \<and> py_gt (Fin (real c')) es))) \<and>
         (fl = Break \<longrightarrow> saves t' = saves t \<and> files t' = files t \<and>
           (\<exists>es. early_stop t = Some es \<and> logs t' \<noteq> [] \<and>
              last (logs t') = Info_training_stops es))"
  using assms
proof (cases rule: epoch_body_cases)
  case (hook_raised x n)
  then show ?thesis by simp
next
  case (evaluated result n t3)
  from evaluate_epoch_flow[OF evaluated(3)] show ?thesis
    by (simp add: evaluated(2))
qed

lemma epoch_body_interrupt:
  assumes "epoch_body hook e t c = (Inl KeyboardInterrupt, t', c')"
  shows "\<exists>n. hook e (t \<lparr> last_epoch := e \<rparr>) = (Inl KeyboardInterrupt, n) \<and>
           t' = t \<lparr> last_epoch := e, nets := n \<rparr> \<and> c' = c"
  using assms
proof (cases rule: epoch_body_cases)
  case (hook_raised x n)
  then show ?thesis by simp
next
  case (evaluated result n t3)
  from evaluate_epoch_exn[OF evaluated(3)] show ?thesis by simp
qed

lemma epoch_body_saves:
  assumes "epoch_body hook e t c = (r, t', c')"
  shows "saves t' = saves t @
           (if r = Inr Continue \<and>
               (e mod save_period t = 0 \<or>
                (mnt_mode t \<noteq> ''off'' \<and>
                 (\<exists>result n. hook e (t \<lparr> last_epoch := e \<rparr>) = (Inr result, n) \<and>
                    check_improved t (epoch_log e result) = Inr True)))
            then [(checkpoint_filename (checkpoint_dir t) e, checkpoint_state t' e)] else [])"
  using assms
proof (cases rule: epoch_body_cases)
  case (hook_raised x n)
  then show ?thesis by simp
next
  case (evaluated result n t3)
  have "check_improved t3 (epoch_log e result) = check_improved t (epoch_log e result)"
    by (rule check_improved_cong) (simp_all add: evaluated(2))
  with evaluate_epoch_saves[OF evaluated(3)] evaluated(1) show ?thesis
    by (simp add: evaluated(2))
qed

lemma epoch_body_continue:
  assumes "epoch_body hook e t c = (Inr Continue, t', c')"
  shows "save_period t \<noteq> 0"
  using assms
proof (cases rule: epoch_body_cases)
  case (hook_raised x n)
  then show ?thesis by simp
next
  case (evaluated result n t3)
  have sp: "save_period t3 = save_period t"
    by (simp add: evaluated(2))
  from evaluated(3) show ?thesis
  proof (cases rule: evaluate_epoch_cases)
    case off
    from save_step_result[OF off(2)] sp show ?thesis by auto
  next
    case (raised x)
    then show ?thesis by simp
  next
    case (break b)
    then show ?thesis by simp
  next
    case (checked b tm cm)
    from save_step_result[OF checked(3)] monitor_step_frame[OF checked(2)] sp
    show ?thesis by (auto simp: unchanged_setup_def)
  qed
qed

lemma epoch_body_state_counter:
  assumes 1: "epoch_body hook e t c1 = (r1, t1, x1)"
    and 2: "epoch_body hook e t c2 = (r2, t2, x2)"
  shows "checkpoint_state t1 e' = checkpoint_state t2 e'"
proof -
  have u: "unchanged_setup t t1" "unchanged_setup t t2"
    using epoch_body_frame[OF 1] epoch_body_frame[OF 2] by simp_all
  have "nets t1 = nets t2 \<and> mnt_best t1 = mnt_best t2"
    using 1
  proof (cases rule: epoch_body_cases)
    case (hook_raised x n)
    with 2 show ?thesis
      by (simp add: epoch_body_def Let_def)
  next
    case (evaluated result n t3)
    with 2 have ev2: "evaluate_epoch e (epoch_log e result) t3 c2 = (r2, t2, x2)"
      by (simp add: epoch_body_def Let_def)
    from evaluate_epoch_frame[OF evaluated(3)] evaluate_epoch_frame[OF ev2]
      evaluate_epoch_best_counter[OF evaluated(3) ev2]
    show ?thesis by simp
  qed
  with u show ?thesis
    by (simp add: checkpoint_state_def unchanged_setup_def)
qed

subsection \<open>The loop\<close>

lemma train_loop_off:
  assumes "mnt_mode t = ''off''" and "train_loop hook es t c = (st, t', c')"
  shows "mnt_mode t' = ''off'' \<and> mnt_best t' = mnt_best t \<and> c' = c \<and> st \<noteq> Stopped"
  using assms
proof (induction es arbitrary: t)
  case Nil
  then show ?case by auto
next
  case (Cons e es)
  obtain r t1 c1 where b: "epoch_body hook e t c = (r, t1, c1)"
    by (cases "epoch_body hook e t c") auto
  note off = epoch_body_off[OF Cons.prems(1) b]
  show ?case
  proof (cases r)
    case (Inl x)
    with Cons.prems(2) b off show ?thesis by auto
  next
    case (Inr fl)
    with off have fl: "fl = Continue" by (cases fl) auto
    with Cons.prems(2) b Inr off have "train_loop hook es t1 c = (st, t', c')" by simp
    from Cons.IH[OF _ this] off show ?thesis by simp
  qed
qed

lemma train_loop_unbounded:
  assumes "mnt_mode t = ''off'' \<or> early_stop t = Some PosInf"
  shows "fst (train_loop hook es t c) \<noteq> Stopped"
  using assms
proof (induction es arbitrary: t c)
  case Nil
  then show ?case by simp
next
  case (Cons e es)
  obtain r t1 c1 where b: "epoch_body hook e t c = (r, t1, c1)"
    by (cases "epoch_body hook e t c") auto
  note fr = epoch_body_frame[OF b]
  have inv: "mnt_mode t1 = ''off'' \<or> early_stop t1 = Some PosInf"
    using Cons.prems fr by (auto simp: unchanged_setup_def)
  show ?case
  proof (cases r)
    case (Inl x)
    with b show ?thesis by simp
  next
    case (Inr fl)
    from epoch_body_flow[OF b[unfolded Inr]] Cons.prems
    have "fl = Continue" by (cases fl) (auto simp: py_gt_PosInf)
    with b Inr Cons.IH[OF inv] show ?thesis by simp
  qed
qed

lemma train_loop_frame:
  assumes "train_loop hook es t c = (st, t', c')"
  shows "unchanged_setup t t'"
  using assms
proof (induction es arbitrary: t c)
  case Nil
  then show ?case by (simp add: unchanged_setup_refl)
next
  case (Cons e es)
  obtain r t1 c1 where b: "epoch_body hook e t c = (r, t1, c1)"
    by (cases "epoch_body hook e t c") auto
  from epoch_body_frame[OF b] have u: "unchanged_setup t t1" by simp
  show ?case
  proof (cases r)
    case (Inl x)
    with Cons.prems b u show ?thesis by simp
  next
    case (Inr fl)
    show ?thesis
    proof (cases fl)
      case Break
      with Cons.prems b Inr u show ?thesis by simp
    next
      case Continue
      with Cons.prems b Inr have "train_loop hook es t1 c1 = (st, t', c')" by simp
      from Cons.IH[OF this] u show ?thesis by (rule unchanged_setup_trans[rotated])
    qed
  qed
qed

text \<open>A loop that stops early was monitoring, and its counter exceeds the patience.\<close>

lemma train_loop_stopped:
  assumes "train_loop hook es t c = (Stopped, t', c')"
  shows "mnt_mode t \<noteq> ''off'' \<and> (\<exists>p. early_stop t = Some p \<and> py_gt (Fin (real c')) p)"
  using assms
proof (induction es arbitrary: t c)
  case Nil
  then show ?case by simp
next
  case (Cons e es)
  obtain r t1 c1 where b: "epoch_body hook e t c = (r, t1, c1)"
    by (cases "epoch_body hook e t c") auto
  show ?case
  proof (cases r)
    case (Inl x)
    with Cons.prems b show ?thesis by simp
  next
    case (Inr fl)
    show ?thesis
    proof (cases fl)
      case Break
      with Cons.prems b Inr have "t' = t1" "c' = c1" by simp_all
      with epoch_body_flow[OF b[unfolded Inr]] Break show ?thesis by simp
    next
      case Continue
      with Cons.prems b Inr have "train_loop hook es t1 c1 = (Stopped, t', c')" by simp
      from Cons.IH[OF this] epoch_body_frame[OF b] show ?thesis
        by (auto simp: unchanged_setup_def)
    qed
  qed
qed

lemma append_optional:
  assumes "xs = ys @ (if P then [x] else [])"
  obtains zs where "xs = ys @ zs" "set zs \<subseteq> {x}"
  using assms by (cases P) auto

lemma train_loop_interrupt:
  assumes "train_loop hook es t c = (Raised KeyboardInterrupt, ti, c')"
  shows "\<exists>pre post tk n new.
           es = pre @ last_epoch ti # post \<and>
           last_epoch tk = last_epoch ti \<and>
           hook (last_epoch ti) tk = (Inl KeyboardInterrupt, n) \<and>
           ti = tk \<lparr> nets := n \<rparr> \<and> unchanged_setup t ti \<and>
           saves ti = saves t @ new \<and> (\<forall>x \<in> set new. ck_epoch (snd x) \<in> set pre)"
  using assms
proof (induction es arbitrary: t c)
  case Nil
  then show ?case by simp
next
  case (Cons e es)
  obtain r t1 c1 where b: "epoch_body hook e t c = (r, t1, c1)"
    by (cases "epoch_body hook e t c") auto
  show ?case
  proof (cases r)
    case (Inl x)
    with Cons.prems b have x: "x = KeyboardInterrupt" and ti: "ti = t1"
      by simp_all
    from epoch_body_interrupt[OF b[unfolded Inl x]]
    obtain n where h: "hook e (t \<lparr> last_epoch := e \<rparr>) = (Inl KeyboardInterrupt, n)"
      and t1: "t1 = t \<lparr> last_epoch := e, nets := n \<rparr>"
      by auto
    have le: "last_epoch ti = e"
      by (simp add: ti t1)
    have 1: "e # es = [] @ last_epoch ti # es"
      by (simp add: le)
    have 2: "last_epoch (t \<lparr> last_epoch := e \<rparr>) = last_epoch ti"
      by (simp add: le)
    have 3: "hook (last_epoch ti) (t \<lparr> last_epoch := e \<rparr>) = (Inl KeyboardInterrupt, n)"
      by (simp only: le h)
    have 4: "ti = (t \<lparr> last_epoch := e \<rparr>) \<lparr> nets := n \<rparr>"
      by (simp add: ti t1)
    have 5: "unchanged_setup t ti"
      by (simp add: ti t1 unchanged_setup_def)
    have 6: "saves ti = saves t @ []"
      by (simp add: ti t1)
    have 7: "\<forall>x \<in> set ([] :: (string \<times> ('a, 'b) checkpoint) list). ck_epoch (snd x) \<in> set []"
      by simp
    from 1 2 3 4 5 6 7 show ?thesis by blast
  next
    case (Inr fl)
    show ?thesis
    proof (cases fl)
      case Break
      with Cons.prems b Inr show ?thesis by simp
    next
      case Continue
      with Cons.prems b Inr
      have l: "train_loop hook es t1 c1 = (Raised KeyboardInterrupt, ti, c')"
        by simp
      from Cons.IH[OF l] obtain pre post tk n new where
        es: "es = pre @ last_epoch ti # post" and
        tk: "last_epoch tk = last_epoch ti"
          "hook (last_epoch ti) tk = (Inl KeyboardInterrupt, n)" "ti = tk \<lparr> nets := n \<rparr>" and
        u: "unchanged_setup t1 ti" and
        new: "saves ti = saves t1 @ new" "(\<forall>x \<in> set new. ck_epoch (snd x) \<in> set pre)"
        by blast
      from epoch_body_saves[OF b] obtain first where
        first: "saves t1 = saves t @ first"
          "set first \<subseteq> {(checkpoint_filename (checkpoint_dir t) e, checkpoint_state t1 e)}"
        by (rule append_optional)
      have fe: "\<forall>x \<in> set first. ck_epoch (snd x) = e"
        using first(2) by (auto simp: checkpoint_state_def)
      from epoch_body_frame[OF b] u have u': "unchanged_setup t ti"
        by (blast intro: unchanged_setup_trans)
      have 1: "e # es = (e # pre) @ last_epoch ti # post"
        by (simp add: es)
      have 6: "saves ti = saves t @ (first @ new)"
        by (simp add: new(1) first(1))
      have 7: "\<forall>x \<in> set (first @ new). ck_epoch (snd x) \<in> set (e # pre)"
        using fe new(2) by auto
      from 1 tk u' 6 7 show ?thesis by blast
    qed
  qed
qed

lemma upto_split_bounds:
  assumes "[s..n] = pre @ k # post"
  shows "s \<le> k \<and> k \<le> n \<and> (\<forall>x \<in> set pre. x < k)"
proof -
  have "k \<in> set [s..n]"
    by (simp only: assms) simp
  then have b: "s \<le> k \<and> k \<le> n" by simp
  have "sorted (pre @ k # post)" "distinct (pre @ k # post)"
    using assms[symmetric] by simp_all
  then have "\<forall>x \<in> set pre. x \<le> k \<and> x \<noteq> k"
    by (auto simp: sorted_append)
  with b show ?thesis by fastforce
qed

section \<open>Resume and construction, step by step\<close>

lemma bindE_Inr: "bindE r f = Inr y \<longleftrightarrow> (\<exists>x. r = Inr x \<and> f x = Inr y)"
  by (cases r) (simp_all add: bindE_def)

lemma load_networks_effect:
  assumes "load_networks ck t = Inr t'"
  shows "generator (nets t') = ck_generator_state_dict ck \<and>
         discriminator (nets t') = ck_discriminator_state_dict ck \<and>
         g_optimizer (nets t') = g_optimizer (nets t) \<and>
         d_optimizer (nets t') = d_optimizer (nets t) \<and>
         g_lr_scheduler (nets t') = g_lr_scheduler (nets t) \<and>
         d_lr_scheduler (nets t') = d_lr_scheduler (nets t) \<and>
         start_epoch t' = ck_epoch ck + 1 \<and> mnt_best t' = ck_monitor_best ck \<and>
         config t' = config t \<and> set (logs t) \<subseteq> set (logs t') \<and>
         ((map_of (entries (ck_config ck)) ''generator'' \<noteq>
             map_of (entries (config t)) ''generator'' \<or>
           map_of (entries (ck_config ck)) ''discriminator'' \<noteq>
             map_of (entries (config t)) ''discriminator'') \<longrightarrow>
          Warn_architecture \<in> set (logs t'))"
  using assms
  by (auto simp: load_networks_def resume_defs split: option.splits if_splits)

lemma resume_g_optimizer_effect:
  assumes "resume_g_optimizer ck t = Inr t'"
  shows "generator (nets t') = generator (nets t) \<and>
         discriminator (nets t') = discriminator (nets t) \<and>
         d_optimizer (nets t') = d_optimizer (nets t) \<and>
         d_lr_scheduler (nets t') = d_lr_scheduler (nets t) \<and>
         start_epoch t' = start_epoch t \<and> mnt_best t' = mnt_best t \<and>
         config t' = config t \<and> set (logs t) \<subseteq> set (logs t') \<and>
         g_optimizer (nets t') =
           (if map_of (entries (ck_config ck)) ''g_optimizer'' =
               map_of (entries (config t)) ''g_optimizer''
            then ck_g_optimizer ck else g_optimizer (nets t)) \<and>
         (map_of (entries (ck_config ck)) ''g_optimizer'' \<noteq>
            map_of (entries (config t)) ''g_optimizer'' \<longrightarrow> Warn_optimizer \<in> set (logs t')) \<and>
         g_lr_scheduler (nets t') =
           (if map_of (entries (ck_config ck)) ''g_optimizer'' =
                 map_of (entries (config t)) ''g_optimizer'' \<and>
               map_of (entries (ck_config ck)) ''g_lr_scheduler'' =
                 map_of (entries (config t)) ''g_lr_scheduler''
            then ck_g_lr_scheduler ck else g_lr_scheduler (nets t)) \<and>
         (map_of (entries (ck_config ck)) ''g_optimizer'' =
            map_of (entries (config t)) ''g_optimizer'' \<and>
          map_of (entries (ck_config ck)) ''g_lr_scheduler'' =
            map_of (entries (config t)) ''g_lr_scheduler'' \<longrightarrow>
          g_lr_scheduler (nets t) \<noteq> None \<and> ck_g_lr_scheduler ck \<noteq> None)"
  using assms
  by (auto simp: resume_g_optimizer_def resume_defs split: option.splits if_splits)

lemma resume_d_optimizer_effect:
  assumes "resume_d_optimizer ck t = Inr t'"
  shows "generator (nets t') = generator (nets t) \<and>
         discriminator (nets t') = discriminator (nets t) \<and>
         g_optimizer (nets t') = g_optimizer (nets t) \<and>
         g_lr_scheduler (nets t') = g_lr_scheduler (nets t) \<and>
         start_epoch t' = start_epoch t \<and> mnt_best t' = mnt_best t \<and>
         config t' = config t \<and> set (logs t) \<subseteq> set (logs t') \<and>
         d_optimizer (nets t') =
           (if map_of (entries (ck_config ck)) ''d_optimizer'' =
               map_of (entries (config t)) ''d_optimizer''
            then ck_d_optimizer ck else d_optimizer (nets t)) \<and>
         (map_of (entries (ck_config ck)) ''d_optimizer'' \<noteq>
            map_of (entries (config t)) ''d_optimizer'' \<longrightarrow>
            Warn_optimizer \<in> set (logs t') \<and>
            d_lr_scheduler (nets t') = d_lr_scheduler (nets t))"
  using assms
  by (auto simp: resume_d_optimizer_def resume_defs split: option.splits if_splits)

lemma resume_checkpoint_steps:
  assumes "files t p = Some ck" and "resume_checkpoint p t = Inr t'"
  obtains t4 t5 t6 where
    "load_networks ck (logger (Info_loading_checkpoint p) t) = Inr t4"
    "resume_g_optimizer ck t4 = Inr t5" "resume_d_optimizer ck t5 = Inr t6"
    "t' = logger (Info_checkpoint_loaded (start_epoch t6)) t6"
  using assms
  by (auto simp: resume_checkpoint_def Let_def bindE_Inr logger_def)

lemma load_networks_frame:
  assumes "load_networks ck t = Inr t'"
  shows "unchanged_setup t t' \<and> mnt_mode t' = mnt_mode t \<and> files t' = files t \<and>
         saves t' = saves t \<and> last_epoch t' = last_epoch t"
  using assms
  by (auto simp: load_networks_def resume_defs unchanged_setup_def split: option.splits if_splits)

lemma resume_g_optimizer_frame:
  assumes "resume_g_optimizer ck t = Inr t'"
  shows "unchanged_setup t t' \<and> mnt_mode t' = mnt_mode t \<and> files t' = files t \<and>
         saves t' = saves t \<and> last_epoch t' = last_epoch t"
  using assms
  by (auto simp: resume_g_optimizer_def resume_defs unchanged_setup_def
      split: option.splits if_splits)

lemma resume_d_optimizer_frame:
  assumes "resume_d_optimizer ck t = Inr t'"
  shows "unchanged_setup t t' \<and> mnt_mode t' = mnt_mode t \<and> files t' = files t \<and>
         saves t' = saves t \<and> last_epoch t' = last_epoch t"
  using assms
  by (auto simp: resume_d_optimizer_def resume_defs unchanged_setup_def
      split: option.splits if_splits)

lemma resume_checkpoint_frame:
  assumes "resume_checkpoint p t = Inr t'"
  shows "unchanged_setup t t' \<and> mnt_mode t' = mnt_mode t \<and> files t' = files t \<and>
         saves t' = saves t \<and> last_epoch t' = last_epoch t"
proof -
  obtain ck where fl: "files t p = Some ck"
    using assms by (auto simp: resume_checkpoint_def Let_def logger_def split: option.splits)
  obtain t4 t5 t6 where
    l: "load_networks ck (logger (Info_loading_checkpoint p) t) = Inr t4" and
    g: "resume_g_optimizer ck t4 = Inr t5" and d: "resume_d_optimizer ck t5 = Inr t6" and
    t': "t' = logger (Info_checkpoint_loaded (start_epoch t6)) t6"
    using resume_checkpoint_steps[OF fl assms] .
  show ?thesis
    using load_networks_frame[OF l] resume_g_optimizer_frame[OF g]
      resume_d_optimizer_frame[OF d]
    by (simp add: t' logger_def unchanged_setup_def)
qed

text \<open>The patience that the constructor stores when monitoring is configured.\<close>

lemma init_fields_stored:
  assumes "init_fields ns gn dn cfg fs we = Inr t" and "mnt_mode t \<noteq> ''off''"
  shows "early_stop t =
           Some (case cfg_early_stop (trainer_section cfg) of
                   None \<Rightarrow> PosInf
                 | Some p \<Rightarrow> if py_le p (Fin 0) then PosInf else p)"
  using assms
  by (auto simp: init_fields_def Let_def split: if_splits list.splits option.splits)

lemma init_stored:
  assumes "init ns gn dn cfg fs we = Inr t" and "mnt_mode t \<noteq> ''off''"
  shows "early_stop t =
           Some (case cfg_early_stop (trainer_section cfg) of
                   None \<Rightarrow> PosInf
                 | Some p \<Rightarrow> if py_le p (Fin 0) then PosInf else p)"
proof -
  obtain t0 where i: "init_fields ns gn dn cfg fs we = Inr t0"
    and fin: "(case resume cfg of None \<Rightarrow> Inr t0 | Some p \<Rightarrow> resume_checkpoint p t0) = Inr t"
    using assms(1) by (auto simp: init_def bindE_Inr)
  have same: "mnt_mode t = mnt_mode t0 \<and> early_stop t = early_stop t0"
  proof (cases "resume cfg")
    case None
    with fin show ?thesis by simp
  next
    case (Some path)
    with fin have "resume_checkpoint path t0 = Inr t" by simp
    from resume_checkpoint_frame[OF this] show ?thesis
      by (simp add: unchanged_setup_def)
  qed
  with assms(2) init_fields_stored[OF i] show ?thesis by simp
qed

lemma init_patience:
  assumes "init ns gn dn cfg fs we = Inr t"
    and "cfg_early_stop (trainer_section cfg) = Some p" and "py_le p (Fin 0)"
  shows "mnt_mode t = ''off'' \<or> early_stop t = Some PosInf"
  using init_stored[OF assms(1)] assms(2,3)
  by (cases "mnt_mode t = ''off''") simp_all

section \<open>The improvement test\<close>

text \<open>
  Claim C1. In an epoch with monitoring in mode \<^verbatim>\<open>min\<close> or \<^verbatim>\<open>max\<close> whose result holds
  the configured metric with value \<open>v\<close>: the epoch is improved exactly if \<open>v\<close> is at
  most (mode \<^verbatim>\<open>min\<close>) or at least (mode \<^verbatim>\<open>max\<close>) the best value so far; then the best
  value becomes \<open>v\<close> and the not-improved counter becomes 0, and otherwise the best
  value stays and the counter grows by one. This holds however the rest of the loop
  body ends.
\<close>

theorem improvement_test:
  assumes mode: "mnt_mode t = ''min'' \<or> mnt_mode t = ''max''"
    and metric: "mnt_metric t = Some m"
    and hook: "hook epoch (t \<lparr> last_epoch := epoch \<rparr>) = (Inr result, n)"
    and dict: "distinct (map fst result)"
    and val: "map_of result m = Some v"
    and body: "epoch_body hook epoch t cnt = (r, t', cnt')"
  shows "(mnt_mode t = ''min'' \<longrightarrow>
            check_improved t (epoch_log epoch result) = Inr (py_le v (mnt_best t)) \<and>
            (if py_le v (mnt_best t) then mnt_best t' = v \<and> cnt' = 0
             else mnt_best t' = mnt_best t \<and> cnt' = cnt + 1)) \<and>
         (mnt_mode t = ''max'' \<longrightarrow>
            check_improved t (epoch_log epoch result) = Inr (py_ge v (mnt_best t)) \<and>
            (if py_ge v (mnt_best t) then mnt_best t' = v \<and> cnt' = 0
             else mnt_best t' = mnt_best t \<and> cnt' = cnt + 1))"
  using assms map_of_epoch_log_present[OF dict val, of epoch]
  by (auto simp: body_defs split: option.splits if_splits)

text \<open>
  The theorem at a tie in mode \<^verbatim>\<open>min\<close>: best value 2.0, counter 1, and an epoch that
  reports 2.0 again. The counter is reset.
\<close>

theorem improvement_test_witness:
  "mnt_mode (ex_trainer \<lparr> mnt_best := Fin 2 \<rparr>) = ''min'' \<and>
   mnt_best (fst (snd (epoch_body ex_hook 2 (ex_trainer \<lparr> mnt_best := Fin 2 \<rparr>) 1))) = Fin 2 \<and>
   snd (snd (epoch_body ex_hook 2 (ex_trainer \<lparr> mnt_best := Fin 2 \<rparr>) 1)) = 0"
proof -
  let ?t = "ex_trainer \<lparr> mnt_best := Fin 2 \<rparr>"
  let ?b = "epoch_body ex_hook 2 ?t 1"
  have mode: "mnt_mode ?t = ''min'' \<or> mnt_mode ?t = ''max''"
    by (simp add: ex_trainer_def)
  have metric: "mnt_metric ?t = Some ''loss''"
    by (simp add: ex_trainer_def)
  have hook: "ex_hook 2 (?t \<lparr> last_epoch := 2 \<rparr>) = (Inr [(''loss'', Fin 2)], ex_nets)"
    by (simp add: ex_hook_def ex_trainer_def)
  have dict: "distinct (map fst [(''loss'', Fin 2)])"
    by simp
  have val: "map_of [(''loss'', Fin 2)] ''loss'' = Some (Fin 2)"
    by simp
  have body: "?b = (fst ?b, fst (snd ?b), snd (snd ?b))"
    by simp
  show ?thesis
    using improvement_test[OF mode metric hook dict val body]
    by (simp add: ex_trainer_def)
qed

text \<open>
  Mode \<^verbatim>\<open>min\<close> and the values 2.0, 2.0, 2.0 from a fresh supervisor: the counter is 0
  after each epoch.
\<close>

lemma equal_values_keep_counter_zero:
  "(case epoch_body ex_hook 1 ex_trainer 0 of (r1, t1, c1) \<Rightarrow>
    case epoch_body ex_hook 2 t1 c1 of (r2, t2, c2) \<Rightarrow>
    case epoch_body ex_hook 3 t2 c2 of (r3, t3, c3) \<Rightarrow>
      (r1, c1, r2, c2, r3, c3, mnt_best t3)) =
   (Inr Continue, 0, Inr Continue, 0, Inr Continue, 0, Fin 2)"
  by (simp add: eval_defs ex_hook_def ex_trainer_def)

section \<open>Early stopping\<close>

text \<open>
  Claim C2. An epoch whose body ends without an exception breaks the loop exactly
  when monitoring was on at its start and the not-improved counter, as the epoch
  leaves it, is strictly greater than the stored patience, which the epoch does not
  change; the loop then ends as stopped, the last logger call is the stop notice, and
  \<open>train\<close> returns without an exception. The patience that a constructed supervisor
  with monitoring stores is the configured one, or \<open>PosInf\<close> when none is configured
  or the configured one is at most 0; a run of that supervisor that stops early ends
  with a counter strictly greater than this patience; and with a configured patience of
  at most 0 no hook makes the loop stop early.
\<close>

theorem early_stop_rule:
  "(epoch_body hook e t c = (Inr fl, t', c') \<longrightarrow>
      (fl = Break) =
        (mnt_mode t \<noteq> ''off'' \<and> (\<exists>es. early_stop t = Some es \<and> py_gt (Fin (real c')) es)) \<and>
      early_stop t' = early_stop t \<and>
      (fl = Break \<longrightarrow>
         train_loop hook (e # rest) t c = (Stopped, t', c') \<and>
         (\<exists>es. early_stop t = Some es \<and> logs t' \<noteq> [] \<and>
            last (logs t') = Info_training_stops es))) \<and>
   (train_process hook t = (Stopped, t', c') \<longrightarrow> train hook t = (None, t')) \<and>
   (init ns gn dn cfg fs we = Inr t0 \<and> mnt_mode t0 \<noteq> ''off'' \<longrightarrow>
      early_stop t0 =
        Some (case cfg_early_stop (trainer_section cfg) of
                None \<Rightarrow> PosInf
              | Some p \<Rightarrow> if py_le p (Fin 0) then PosInf else p)) \<and>
   (init ns gn dn cfg fs we = Inr t0 \<and> train_process hook t0 = (Stopped, t', c') \<longrightarrow>
      mnt_mode t0 \<noteq> ''off'' \<and>
      py_gt (Fin (real c'))
        (case cfg_early_stop (trainer_section cfg) of
           None \<Rightarrow> PosInf
         | Some p \<Rightarrow> if py_le p (Fin 0) then PosInf else p)) \<and>
   (init ns gn dn cfg fs we = Inr t0 \<and> cfg_early_stop (trainer_section cfg) = Some p \<and>
    py_le p (Fin 0) \<longrightarrow>
      (mnt_mode t0 = ''off'' \<or> early_stop t0 = Some PosInf) \<and>
      fst (train_process hook t0) \<noteq> Stopped)"
proof (intro conjI impI)
  assume b: "epoch_body hook e t c = (Inr fl, t', c')"
  from epoch_body_flow[OF b]
  show "(fl = Break) =
        (mnt_mode t \<noteq> ''off'' \<and> (\<exists>es. early_stop t = Some es \<and> py_gt (Fin (real c')) es))"
    by simp
  from epoch_body_frame[OF b] show "early_stop t' = early_stop t"
    by (simp add: unchanged_setup_def)
  assume "fl = Break"
  with b show "train_loop hook (e # rest) t c = (Stopped, t', c')"
    by simp
  from epoch_body_flow[OF b] \<open>fl = Break\<close>
  show "\<exists>es. early_stop t = Some es \<and> logs t' \<noteq> [] \<and> last (logs t') = Info_training_stops es"
    by simp
next
  assume "train_process hook t = (Stopped, t', c')"
  then show "train hook t = (None, t')"
    by (simp add: train_def)
next
  assume "init ns gn dn cfg fs we = Inr t0 \<and> mnt_mode t0 \<noteq> ''off''"
  then show "early_stop t0 =
        Some (case cfg_early_stop (trainer_section cfg) of
                None \<Rightarrow> PosInf
              | Some p \<Rightarrow> if py_le p (Fin 0) then PosInf else p)"
    using init_stored by blast
next
  assume a: "init ns gn dn cfg fs we = Inr t0 \<and> train_process hook t0 = (Stopped, t', c')"
  then have "train_loop hook [start_epoch t0 .. epochs t0] t0 0 = (Stopped, t', c')"
    by (simp add: train_process_def)
  from train_loop_stopped[OF this]
  have on: "mnt_mode t0 \<noteq> ''off''"
    and gt: "\<exists>p. early_stop t0 = Some p \<and> py_gt (Fin (real c')) p"
    by simp_all
  from on show "mnt_mode t0 \<noteq> ''off''" .
  from a on have "early_stop t0 =
        Some (case cfg_early_stop (trainer_section cfg) of
                None \<Rightarrow> PosInf
              | Some p \<Rightarrow> if py_le p (Fin 0) then PosInf else p)"
    using init_stored by blast
  with gt show "py_gt (Fin (real c'))
        (case cfg_early_stop (trainer_section cfg) of
           None \<Rightarrow> PosInf
         | Some p \<Rightarrow> if py_le p (Fin 0) then PosInf else p)"
    by auto
next
  assume a: "init ns gn dn cfg fs we = Inr t0 \<and> cfg_early_stop (trainer_section cfg) = Some p \<and>
    py_le p (Fin 0)"
  then show inv: "mnt_mode t0 = ''off'' \<or> early_stop t0 = Some PosInf"
    using init_patience by blast
  from train_loop_unbounded[OF inv] show "fst (train_process hook t0) \<noteq> Stopped"
    by (simp add: train_process_def)
qed

text \<open>
  Patience 1 in the configuration: the constructor stores 1.0, and a run whose loss
  gets worse from the second epoch on stops in the third epoch, where the counter
  becomes 2; an epoch that leaves the counter at 1 does not stop it. Patience 0 in the configuration: the constructor stores \<open>PosInf\<close>, and the
  same run goes through all three epochs, the counter reaching 2.
\<close>

theorem early_stop_rule_witness:
  "init ex_nets ''G'' ''D'' ex_cfg_patience Map.empty Map.empty = Inr ex_configured \<and>
   cfg_early_stop (trainer_section ex_cfg_patience) = Some (Fin 1) \<and>
   early_stop ex_configured = Some (Fin 1) \<and>
   fst (train_process ex_worse_hook ex_configured) = Stopped \<and>
   last_epoch (fst (snd (train_process ex_worse_hook ex_configured))) = 3 \<and>
   snd (snd (train_process ex_worse_hook ex_configured)) = 2 \<and>
   fst (train ex_worse_hook ex_configured) = None \<and>
   fst (epoch_body ex_worse_hook 2 ex_patient 0) = Inr Continue \<and>
   snd (snd (epoch_body ex_worse_hook 2 ex_patient 0)) = 1 \<and>
   init ex_nets ''G'' ''D'' ex_cfg Map.empty Map.empty = Inr ex_trainer \<and>
   cfg_early_stop (trainer_section ex_cfg) = Some (Fin 0) \<and>
   early_stop ex_trainer = Some PosInf \<and>
   fst (train_process ex_worse_hook ex_trainer) = Exhausted \<and>
   snd (snd (train_process ex_worse_hook ex_trainer)) = 2"
proof -
  let ?r = "train_process ex_worse_hook ex_configured"
  let ?b = "epoch_body ex_worse_hook 2 ex_patient 0"
  have i1: "init ex_nets ''G'' ''D'' ex_cfg_patience Map.empty Map.empty = Inr ex_configured"
    by (simp add: run_defs ex_defs)
  have on: "mnt_mode ex_configured \<noteq> ''off''"
    by (simp add: ex_defs)
  have r1: "?r = (Stopped, fst (snd ?r), 2)"
    by (simp add: run_defs ex_defs)
  have le: "last_epoch (fst (snd ?r)) = 3"
    by (simp add: run_defs ex_defs)
  have b: "?b = (Inr Continue, fst (snd ?b), 1)"
    by (simp add: run_defs ex_defs)
  have i0: "init ex_nets ''G'' ''D'' ex_cfg Map.empty Map.empty = Inr ex_trainer \<and>
      cfg_early_stop (trainer_section ex_cfg) = Some (Fin 0) \<and> py_le (Fin 0) (Fin 0)"
    by (simp add: run_defs ex_defs)
  have r0: "train_process ex_worse_hook ex_trainer =
      (Exhausted, fst (snd (train_process ex_worse_hook ex_trainer)), 2)"
    by (simp add: run_defs ex_defs)
  have c: "cfg_early_stop (trainer_section ex_cfg_patience) = Some (Fin 1)"
    by (simp add: ex_defs)
  note inst = early_stop_rule[where hook = ex_worse_hook and ns = ex_nets and gn = "''G''"
      and dn = "''D''" and cfg = ex_cfg_patience and fs = Map.empty and we = Map.empty
      and ?t0.0 = ex_configured and t = ex_configured and t' = "fst (snd ?r)" and c' = 2]
  from inst i1 on c have 1: "early_stop ex_configured = Some (Fin 1)"
    by simp
  from inst r1 have 2: "train ex_worse_hook ex_configured = (None, fst (snd ?r))"
    by blast
  from early_stop_rule[where hook = ex_worse_hook and ns = ex_nets and gn = "''G''"
      and dn = "''D''" and cfg = ex_cfg and fs = Map.empty and we = Map.empty
      and ?t0.0 = ex_trainer and p = "Fin 0"] i0
  have 3: "fst (train_process ex_worse_hook ex_trainer) \<noteq> Stopped"
    by simp
  have 4: "early_stop ex_trainer = Some PosInf"
    by (simp add: ex_defs)
  from i1 c 1 r1 le 2 b i0 r0 3 4 show ?thesis
    by (metis fst_conv snd_conv)
qed

section \<open>A metric that is missing\<close>

text \<open>
  Claim C3, amended. In an epoch with monitoring in mode \<^verbatim>\<open>min\<close> or \<^verbatim>\<open>max\<close> whose
  result lacks the configured metric name, the name not being \<^verbatim>\<open>epoch\<close>: the warning is
  logged, the monitor mode becomes \<^verbatim>\<open>off\<close>, the epoch is not improved (the counter grows
  by one, the best value stays, the improvement test ends in the \<^verbatim>\<open>KeyError\<close>); and
  whatever epochs follow, with whatever results, the mode stays \<^verbatim>\<open>off\<close>, the best value
  and the counter stay as they are, and the loop does not stop early.
\<close>

theorem missing_metric_disables:
  assumes mode: "mnt_mode t = ''min'' \<or> mnt_mode t = ''max''"
    and metric: "mnt_metric t = Some m"
    and name: "m \<noteq> ''epoch''"
    and hook: "hook e (t \<lparr> last_epoch := e \<rparr>) = (Inr result, n)"
    and missing: "map_of result m = None"
    and body: "epoch_body hook e t c = (r, t', c')"
  shows "Warn_metric_not_found m \<in> set (logs t') \<and> mnt_mode t' = ''off'' \<and>
         c' = c + 1 \<and> mnt_best t' = mnt_best t \<and>
         check_improved t (epoch_log e result) = Inl (KeyError m) \<and>
         (\<forall>hook' es.
            mnt_mode (fst (snd (train_loop hook' es t' c'))) = ''off'' \<and>
            mnt_best (fst (snd (train_loop hook' es t' c'))) = mnt_best t \<and>
            snd (snd (train_loop hook' es t' c')) = c' \<and>
            fst (train_loop hook' es t' c') \<noteq> Stopped)"
proof -
  have lg: "map_of (epoch_log e result) m = None"
    by (rule map_of_epoch_log_absent[OF missing name])
  have step: "Warn_metric_not_found m \<in> set (logs t') \<and> mnt_mode t' = ''off'' \<and>
         c' = c + 1 \<and> mnt_best t' = mnt_best t"
    using body
  proof (cases rule: epoch_body_cases)
    case (hook_raised x n')
    with hook show ?thesis by simp
  next
    case (evaluated result' n' t3)
    with hook have res: "result' = result" by simp
    have "mnt_mode t3 = ''min'' \<or> mnt_mode t3 = ''max''" "mnt_metric t3 = Some m"
      using mode metric by (simp_all add: evaluated(2))
    from evaluate_epoch_missing[OF this lg evaluated(3)[unfolded res]]
    show ?thesis by (simp add: evaluated(2))
  qed
  have ci: "check_improved t (epoch_log e result) = Inl (KeyError m)"
    using mode metric lg by (auto simp: check_improved_def)
  have rest: "mnt_mode (fst (snd (train_loop hook' es t' c'))) = ''off'' \<and>
            mnt_best (fst (snd (train_loop hook' es t' c'))) = mnt_best t \<and>
            snd (snd (train_loop hook' es t' c')) = c' \<and>
            fst (train_loop hook' es t' c') \<noteq> Stopped" for hook' es
  proof -
    obtain st t'' c'' where l: "train_loop hook' es t' c' = (st, t'', c'')"
      by (cases "train_loop hook' es t' c'") auto
    from step have off: "mnt_mode t' = ''off''" and best: "mnt_best t' = mnt_best t"
      by simp_all
    from train_loop_off[OF off l] best show ?thesis
      by (simp add: l)
  qed
  from step ci rest show ?thesis by blast
qed

text \<open>
  Monitoring \<^verbatim>\<open>min loss\<close>, a first epoch that reports only an accuracy, then two epochs
  that report a loss: the mode is \<^verbatim>\<open>off\<close> after the first epoch and after the third,
  and the counter stays 1.
\<close>

theorem missing_metric_disables_witness:
  "mnt_mode ex_trainer = ''min'' \<and> mnt_metric ex_trainer = Some ''loss'' \<and>
   map_of [(''accuracy'', Fin 1)] ''loss'' = None \<and>
   mnt_mode (fst (snd (epoch_body ex_other_hook 1 ex_trainer 0))) = ''off'' \<and>
   snd (snd (epoch_body ex_other_hook 1 ex_trainer 0)) = 1 \<and>
   mnt_best (fst (snd (epoch_body ex_other_hook 1 ex_trainer 0))) = PosInf \<and>
   mnt_mode (fst (snd (train_loop ex_hook [2, 3]
      (fst (snd (epoch_body ex_other_hook 1 ex_trainer 0))) 1))) = ''off'' \<and>
   mnt_best (fst (snd (train_loop ex_hook [2, 3]
      (fst (snd (epoch_body ex_other_hook 1 ex_trainer 0))) 1))) = PosInf \<and>
   snd (snd (train_loop ex_hook [2, 3]
      (fst (snd (epoch_body ex_other_hook 1 ex_trainer 0))) 1)) = 1"
proof -
  let ?b = "epoch_body ex_other_hook 1 ex_trainer 0"
  have mode: "mnt_mode ex_trainer = ''min'' \<or> mnt_mode ex_trainer = ''max''"
    by (simp add: ex_defs)
  have metric: "mnt_metric ex_trainer = Some ''loss''"
    by (simp add: ex_defs)
  have name: "''loss'' \<noteq> ''epoch''"
    by simp
  have hook: "ex_other_hook 1 (ex_trainer \<lparr> last_epoch := 1 \<rparr>) =
      (Inr [(''accuracy'', Fin 1)], ex_nets)"
    by (simp add: ex_defs)
  have missing: "map_of [(''accuracy'', Fin 1)] ''loss'' = None"
    by simp
  have body: "?b = (fst ?b, fst (snd ?b), snd (snd ?b))"
    by simp
  show ?thesis
    using missing_metric_disables[OF mode metric name hook missing body]
    by (simp add: run_defs ex_defs)
qed

text \<open>
  Without the condition on the name the statement fails. The metric is looked up in
  the log record, which holds the epoch number under \<^verbatim>\<open>epoch\<close>: with the monitor
  \<^verbatim>\<open>max epoch\<close> and a result that lacks \<^verbatim>\<open>epoch\<close>, the epoch is improved, monitoring stays
  on and no warning is logged.
\<close>

theorem missing_metric_disables_counterexample:
  "mnt_mode ex_epoch_monitor = ''max'' \<and> mnt_metric ex_epoch_monitor = Some ''epoch'' \<and>
   ex_hook 1 (ex_epoch_monitor \<lparr> last_epoch := 1 \<rparr>) = (Inr [(''loss'', Fin 2)], ex_nets) \<and>
   map_of [(''loss'', Fin 2)] ''epoch'' = None \<and>
   mnt_mode (fst (snd (epoch_body ex_hook 1 ex_epoch_monitor 0))) = ''max'' \<and>
   mnt_best (fst (snd (epoch_body ex_hook 1 ex_epoch_monitor 0))) = Fin 1 \<and>
   snd (snd (epoch_body ex_hook 1 ex_epoch_monitor 0)) = 0 \<and>
   Warn_metric_not_found ''epoch'' \<notin> set (logs (fst (snd (epoch_body ex_hook 1 ex_epoch_monitor 0))))"
  by (simp add: run_defs ex_defs)

section \<open>Resume: the schedulers\<close>

text \<open>
  Claim C4, amended. After a resume that succeeds: the generator's scheduler holds the
  checkpoint's scheduler state if the \<^verbatim>\<open>g_optimizer\<close> entry and the \<^verbatim>\<open>g_lr_scheduler\<close>
  entry are both unchanged between the checkpoint's configuration and the current one
  (a scheduler is then attached and the checkpoint holds a state for it), and keeps
  its state otherwise; the discriminator's scheduler keeps its state when the
  \<^verbatim>\<open>d_optimizer\<close> entry has changed.
\<close>

theorem scheduler_restore:
  assumes fl: "files t p = Some ck"
    and res: "resume_checkpoint p t = Inr t'"
  shows "g_lr_scheduler (nets t') =
           (if map_of (entries (ck_config ck)) ''g_optimizer'' =
                 map_of (entries (config t)) ''g_optimizer'' \<and>
               map_of (entries (ck_config ck)) ''g_lr_scheduler'' =
                 map_of (entries (config t)) ''g_lr_scheduler''
            then ck_g_lr_scheduler ck else g_lr_scheduler (nets t)) \<and>
         (map_of (entries (ck_config ck)) ''g_optimizer'' =
            map_of (entries (config t)) ''g_optimizer'' \<and>
          map_of (entries (ck_config ck)) ''g_lr_scheduler'' =
            map_of (entries (config t)) ''g_lr_scheduler'' \<longrightarrow>
          g_lr_scheduler (nets t) \<noteq> None \<and> ck_g_lr_scheduler ck \<noteq> None) \<and>
         (map_of (entries (ck_config ck)) ''d_optimizer'' \<noteq>
            map_of (entries (config t)) ''d_optimizer'' \<longrightarrow>
          d_lr_scheduler (nets t') = d_lr_scheduler (nets t))"
proof -
  obtain t4 t5 t6 where
    l: "load_networks ck (logger (Info_loading_checkpoint p) t) = Inr t4" and
    g: "resume_g_optimizer ck t4 = Inr t5" and d: "resume_d_optimizer ck t5 = Inr t6" and
    t': "t' = logger (Info_checkpoint_loaded (start_epoch t6)) t6"
    using resume_checkpoint_steps[OF fl res] .
  show ?thesis
    using load_networks_effect[OF l] resume_g_optimizer_effect[OF g]
      resume_d_optimizer_effect[OF d]
    by (simp add: t' logger_def)
qed

text \<open>
  Unchanged configuration: the generator's scheduler state 50 is replaced by the
  checkpoint's 51.
\<close>

theorem scheduler_restore_witness:
  "files ex_stored ''ck.pth'' = Some ex_checkpoint \<and>
   \<not> isl (resume_checkpoint ''ck.pth'' ex_stored) \<and>
   g_lr_scheduler (nets ex_stored) = Some 50 \<and>
   g_lr_scheduler (nets (projr (resume_checkpoint ''ck.pth'' ex_stored))) = Some 51"
proof -
  let ?res = "resume_checkpoint ''ck.pth'' ex_stored"
  have fl: "files ex_stored ''ck.pth'' = Some ex_checkpoint"
    by (simp add: ex_stored_def)
  have ok: "\<not> isl ?res"
    by (simp add: resume_eval ex_defs)
  then have res: "?res = Inr (projr ?res)"
    by (cases ?res) simp_all
  show ?thesis
    using scheduler_restore[OF fl res] fl ok
    by (simp add: ex_defs)
qed

text \<open>
  A scheduler that is attached and whose configuration entry is unchanged is not
  restored when the optimizer entry has changed: the restore is nested under the
  optimizer's. The generator's scheduler keeps the state 50.
\<close>

theorem scheduler_restore_counterexample:
  "map_of (entries (ck_config ex_checkpoint)) ''g_lr_scheduler'' =
     map_of (entries (config ex_reconfigured)) ''g_lr_scheduler'' \<and>
   g_lr_scheduler (nets ex_reconfigured) = Some 50 \<and>
   ck_g_lr_scheduler ex_checkpoint = Some 51 \<and>
   \<not> isl (resume_checkpoint ''ck.pth'' ex_reconfigured) \<and>
   g_lr_scheduler (nets (projr (resume_checkpoint ''ck.pth'' ex_reconfigured))) = Some 50"
  by (simp add: resume_eval ex_defs)

text \<open>
  The discriminator's branch tests the scheduler entries with \<^verbatim>\<open>!=\<close> where the
  generator's tests them with \<^verbatim>\<open>==\<close>: with the optimizer entry unchanged, the
  discriminator's scheduler is restored exactly when its configuration entry has
  changed.
\<close>

lemma discriminator_scheduler_inverted:
  assumes "resume_d_optimizer ck t = Inr t'"
    and "map_of (entries (ck_config ck)) ''d_optimizer'' =
         map_of (entries (config t)) ''d_optimizer''"
  shows "d_lr_scheduler (nets t') =
           (if map_of (entries (ck_config ck)) ''d_lr_scheduler'' \<noteq>
               map_of (entries (config t)) ''d_lr_scheduler''
            then ck_d_lr_scheduler ck else d_lr_scheduler (nets t))"
  using assms
  by (auto simp: resume_d_optimizer_def resume_defs split: option.splits if_splits)

text \<open>
  With nothing changed in the configuration, the resume restores the generator's
  scheduler and leaves the discriminator's at its state 60.
\<close>

lemma discriminator_scheduler_not_restored:
  "ck_config ex_checkpoint = config ex_stored \<and>
   d_lr_scheduler (nets ex_stored) = Some 60 \<and> ck_d_lr_scheduler ex_checkpoint = Some 61 \<and>
   \<not> isl (resume_checkpoint ''ck.pth'' ex_stored) \<and>
   d_lr_scheduler (nets (projr (resume_checkpoint ''ck.pth'' ex_stored))) = Some 60 \<and>
   g_lr_scheduler (nets (projr (resume_checkpoint ''ck.pth'' ex_stored))) = Some 51"
  by (simp add: resume_eval ex_defs)

section \<open>Resume: the epoch counter and the best value\<close>

text \<open>
  Claim C5. A resume that succeeds on a checkpoint of epoch \<open>N\<close> sets the start epoch
  to \<open>N + 1\<close> and the best value to the checkpoint's \<^verbatim>\<open>monitor_best\<close>, whatever the
  supervisor held before.
\<close>

theorem resume_epoch_and_best:
  assumes fl: "files t p = Some ck"
    and res: "resume_checkpoint p t = Inr t'"
  shows "start_epoch t' = ck_epoch ck + 1 \<and> mnt_best t' = ck_monitor_best ck"
proof -
  obtain t4 t5 t6 where
    l: "load_networks ck (logger (Info_loading_checkpoint p) t) = Inr t4" and
    g: "resume_g_optimizer ck t4 = Inr t5" and d: "resume_d_optimizer ck t5 = Inr t6" and
    t': "t' = logger (Info_checkpoint_loaded (start_epoch t6)) t6"
    using resume_checkpoint_steps[OF fl res] .
  show ?thesis
    using load_networks_effect[OF l] resume_g_optimizer_effect[OF g]
      resume_d_optimizer_effect[OF d]
    by (simp add: t' logger_def)
qed

text \<open>
  A checkpoint of epoch 7 with best value 0.5, resumed by a supervisor whose best
  value is \<open>PosInf\<close>: the start epoch is 8 and the best value 0.5.
\<close>

theorem resume_epoch_and_best_witness:
  "files ex_stored ''ck.pth'' = Some ex_checkpoint \<and>
   \<not> isl (resume_checkpoint ''ck.pth'' ex_stored) \<and>
   ck_epoch ex_checkpoint = 7 \<and> mnt_best ex_stored = PosInf \<and>
   start_epoch (projr (resume_checkpoint ''ck.pth'' ex_stored)) = 8 \<and>
   mnt_best (projr (resume_checkpoint ''ck.pth'' ex_stored)) = Fin (1 / 2)"
proof -
  let ?res = "resume_checkpoint ''ck.pth'' ex_stored"
  have fl: "files ex_stored ''ck.pth'' = Some ex_checkpoint"
    by (simp add: ex_stored_def)
  have ok: "\<not> isl ?res"
    by (simp add: resume_eval ex_defs)
  then have res: "?res = Inr (projr ?res)"
    by (cases ?res) simp_all
  show ?thesis
    using resume_epoch_and_best[OF fl res] fl ok
    by (simp add: ex_defs)
qed

section \<open>Resume: the optimizers and the parameters\<close>

text \<open>
  Claim C6. After a resume that succeeds, both networks hold the checkpoint's
  parameters, also when an architecture entry of the configuration has changed, which
  only logs the architecture warning; and an optimizer whose configuration entry has
  changed keeps the state it had, with the optimizer warning logged.
\<close>

theorem optimizer_mismatch:
  assumes fl: "files t p = Some ck"
    and res: "resume_checkpoint p t = Inr t'"
  shows "generator (nets t') = ck_generator_state_dict ck \<and>
         discriminator (nets t') = ck_discriminator_state_dict ck \<and>
         ((map_of (entries (ck_config ck)) ''generator'' \<noteq>
             map_of (entries (config t)) ''generator'' \<or>
           map_of (entries (ck_config ck)) ''discriminator'' \<noteq>
             map_of (entries (config t)) ''discriminator'') \<longrightarrow>
          Warn_architecture \<in> set (logs t')) \<and>
         (map_of (entries (ck_config ck)) ''g_optimizer'' \<noteq>
            map_of (entries (config t)) ''g_optimizer'' \<longrightarrow>
          g_optimizer (nets t') = g_optimizer (nets t) \<and> Warn_optimizer \<in> set (logs t')) \<and>
         (map_of (entries (ck_config ck)) ''d_optimizer'' \<noteq>
            map_of (entries (config t)) ''d_optimizer'' \<longrightarrow>
          d_optimizer (nets t') = d_optimizer (nets t) \<and> Warn_optimizer \<in> set (logs t'))"
proof -
  obtain t4 t5 t6 where
    l: "load_networks ck (logger (Info_loading_checkpoint p) t) = Inr t4" and
    g: "resume_g_optimizer ck t4 = Inr t5" and d: "resume_d_optimizer ck t5 = Inr t6" and
    t': "t' = logger (Info_checkpoint_loaded (start_epoch t6)) t6"
    using resume_checkpoint_steps[OF fl res] .
  have "config (logger (Info_loading_checkpoint p) t) = config t"
    by (simp add: logger_def)
  then show ?thesis
    using load_networks_effect[OF l] resume_g_optimizer_effect[OF g]
      resume_d_optimizer_effect[OF d]
    by (auto simp: t' logger_def)
qed

text \<open>
  Both optimizer entries changed: the resume succeeds, the parameters 10 and 20 are
  replaced by the checkpoint's 11 and 21, the optimizer states 30 and 40 stay, and the
  warning is logged.
\<close>

theorem optimizer_mismatch_witness:
  "files ex_reconfigured ''ck.pth'' = Some ex_checkpoint \<and>
   \<not> isl (resume_checkpoint ''ck.pth'' ex_reconfigured) \<and>
   map_of (entries (ck_config ex_checkpoint)) ''g_optimizer'' = Some 3 \<and>
   map_of (entries (config ex_reconfigured)) ''g_optimizer'' = Some 33 \<and>
   generator (nets (projr (resume_checkpoint ''ck.pth'' ex_reconfigured))) = 11 \<and>
   discriminator (nets (projr (resume_checkpoint ''ck.pth'' ex_reconfigured))) = 21 \<and>
   g_optimizer (nets (projr (resume_checkpoint ''ck.pth'' ex_reconfigured))) = 30 \<and>
   d_optimizer (nets (projr (resume_checkpoint ''ck.pth'' ex_reconfigured))) = 40 \<and>
   Warn_optimizer \<in> set (logs (projr (resume_checkpoint ''ck.pth'' ex_reconfigured)))"
proof -
  let ?res = "resume_checkpoint ''ck.pth'' ex_reconfigured"
  have fl: "files ex_reconfigured ''ck.pth'' = Some ex_checkpoint"
    by (simp add: ex_defs)
  have ok: "\<not> isl ?res"
    by (simp add: resume_eval ex_defs)
  then have res: "?res = Inr (projr ?res)"
    by (cases ?res) simp_all
  show ?thesis
    using optimizer_mismatch[OF fl res] fl ok
    by (simp add: ex_defs)
qed

section \<open>When a checkpoint is written\<close>

text \<open>
  Claim C7. An epoch whose body ends normally without breaking the loop appends
  exactly one checkpoint of that epoch to the saved ones if the epoch number is
  divisible by the save period or the epoch was marked best (monitoring on and the
  improvement test true), and none otherwise; the save period is then not 0. With
  monitoring off, a hook that returns, a save period that divides the epoch number and
  a write that does not fail, the body ends normally and the checkpoint is written.
\<close>

theorem checkpoint_rule:
  "(epoch_body hook e t c = (Inr Continue, t', c') \<longrightarrow>
      save_period t \<noteq> 0 \<and>
      saves t' = saves t @
        (if e mod save_period t = 0 \<or>
            (mnt_mode t \<noteq> ''off'' \<and>
             (\<exists>result n. hook e (t \<lparr> last_epoch := e \<rparr>) = (Inr result, n) \<and>
                check_improved t (epoch_log e result) = Inr True))
         then [(checkpoint_filename (checkpoint_dir t) e, checkpoint_state t' e)] else [])) \<and>
   (mnt_mode t = ''off'' \<and> hook e (t \<lparr> last_epoch := e \<rparr>) = (Inr result, n) \<and>
    save_period t \<noteq> 0 \<and> e mod save_period t = 0 \<and>
    write_error t (checkpoint_filename (checkpoint_dir t) e) = None \<longrightarrow>
      fst (epoch_body hook e t c) = Inr Continue \<and>
      saves (fst (snd (epoch_body hook e t c))) =
        saves t @ [(checkpoint_filename (checkpoint_dir t) e,
                    checkpoint_state (fst (snd (epoch_body hook e t c))) e)])"
proof (intro conjI impI)
  assume b: "epoch_body hook e t c = (Inr Continue, t', c')"
  from epoch_body_continue[OF b] show "save_period t \<noteq> 0" .
  from epoch_body_saves[OF b]
  show "saves t' = saves t @
        (if e mod save_period t = 0 \<or>
            (mnt_mode t \<noteq> ''off'' \<and>
             (\<exists>result n. hook e (t \<lparr> last_epoch := e \<rparr>) = (Inr result, n) \<and>
                check_improved t (epoch_log e result) = Inr True))
         then [(checkpoint_filename (checkpoint_dir t) e, checkpoint_state t' e)] else [])"
    by simp
next
  assume a: "mnt_mode t = ''off'' \<and> hook e (t \<lparr> last_epoch := e \<rparr>) = (Inr result, n) \<and>
    save_period t \<noteq> 0 \<and> e mod save_period t = 0 \<and>
    write_error t (checkpoint_filename (checkpoint_dir t) e) = None"
  then show c: "fst (epoch_body hook e t c) = Inr Continue"
    by (simp add: epoch_body_def evaluate_epoch_def save_step_def save_checkpoint_def Let_def)
  obtain r t' c' where b: "epoch_body hook e t c = (r, t', c')"
    by (cases "epoch_body hook e t c") auto
  with c have "r = Inr Continue" by simp
  with epoch_body_saves[OF b] a b
  show "saves (fst (snd (epoch_body hook e t c))) =
        saves t @ [(checkpoint_filename (checkpoint_dir t) e,
                    checkpoint_state (fst (snd (epoch_body hook e t c))) e)]"
    by simp
qed

text \<open>
  Save period 2. Without monitoring, epoch 2 writes its checkpoint and epoch 1 writes
  none; with monitoring, epoch 1 is the best so far and writes one.
\<close>

theorem checkpoint_rule_witness:
  "mnt_mode ex_unmonitored = ''off'' \<and> save_period ex_unmonitored = 2 \<and>
   fst (epoch_body ex_hook 2 ex_unmonitored 0) = Inr Continue \<and>
   map (\<lambda>x. ck_epoch (snd x)) (saves (fst (snd (epoch_body ex_hook 2 ex_unmonitored 0)))) = [2] \<and>
   saves (fst (snd (epoch_body ex_hook 1 ex_unmonitored 0))) = [] \<and>
   map (\<lambda>x. ck_epoch (snd x)) (saves (fst (snd (epoch_body ex_hook 1 ex_trainer 0)))) = [1]"
proof -
  let ?b = "epoch_body ex_hook 2 ex_unmonitored 0"
  have b: "?b = (Inr Continue, fst (snd ?b), 0)"
    by (simp add: run_defs ex_defs)
  show ?thesis
    using checkpoint_rule[where hook = ex_hook and e = 2 and t = ex_unmonitored and c = 0
        and t' = "fst (snd ?b)" and c' = 0 and result = "[(''loss'', Fin 2)]" and n = ex_nets] b
    by (simp add: run_defs ex_defs checkpoint_state_def)
qed

section \<open>The interrupt\<close>

text \<open>
  Claim C8, amended. When the loop ends with the interrupt, it was raised by the hook
  in the epoch \<open>K\<close> recorded last, between the start epoch and the total, and \<open>train\<close>
  logs and calls the persistence once for epoch \<open>K\<close> with the best flag false. If that
  write succeeds, the interrupt is raised again, and among the checkpoints written in
  this run exactly one is of epoch \<open>K\<close>: the last one, which is also what the file of
  epoch \<open>K\<close> holds; the save period plays no part. If that write fails, its error
  leaves \<open>train\<close> in place of the interrupt and nothing is written.
\<close>

theorem interrupt_checkpoint:
  assumes run: "train_process hook t = (Raised KeyboardInterrupt, ti, c)"
  shows "start_epoch t \<le> last_epoch ti \<and> last_epoch ti \<le> epochs t \<and>
         (\<exists>tk n. last_epoch tk = last_epoch ti \<and>
            hook (last_epoch ti) tk = (Inl KeyboardInterrupt, n) \<and> ti = tk \<lparr> nets := n \<rparr>) \<and>
         (write_error t (checkpoint_filename (checkpoint_dir t) (last_epoch ti)) = None \<longrightarrow>
            fst (train hook t) = Some KeyboardInterrupt \<and>
            save_checkpoint (last_epoch ti) False False (logger Info_saving_on_interrupt ti) =
              Inr (snd (train hook t)) \<and>
            length (filter (\<lambda>x. ck_epoch (snd x) = last_epoch ti)
                      (drop (length (saves t)) (saves (snd (train hook t))))) = 1 \<and>
            last (saves (snd (train hook t))) =
              (checkpoint_filename (checkpoint_dir t) (last_epoch ti),
               checkpoint_state ti (last_epoch ti)) \<and>
            files (snd (train hook t)) (checkpoint_filename (checkpoint_dir t) (last_epoch ti)) =
              Some (checkpoint_state ti (last_epoch ti))) \<and>
         (\<forall>msg. write_error t (checkpoint_filename (checkpoint_dir t) (last_epoch ti)) =
                  Some msg \<longrightarrow>
            train hook t = (Some (RuntimeError msg), logger Info_saving_on_interrupt ti) \<and>
            saves (snd (train hook t)) = saves ti \<and> files (snd (train hook t)) = files ti)"
proof -
  let ?K = "last_epoch ti"
  let ?tl = "logger Info_saving_on_interrupt ti"
  let ?f = "checkpoint_filename (checkpoint_dir t) ?K"
  from run have "train_loop hook [start_epoch t .. epochs t] t 0 = (Raised KeyboardInterrupt, ti, c)"
    by (simp add: train_process_def)
  from train_loop_interrupt[OF this] obtain pre post tk n new where
    es: "[start_epoch t .. epochs t] = pre @ ?K # post" and
    tk: "last_epoch tk = ?K" "hook ?K tk = (Inl KeyboardInterrupt, n)" "ti = tk \<lparr> nets := n \<rparr>" and
    u: "unchanged_setup t ti" and
    new: "saves ti = saves t @ new" "(\<forall>x \<in> set new. ck_epoch (snd x) \<in> set pre)"
    by blast
  from upto_split_bounds[OF es] have bounds: "start_epoch t \<le> ?K" "?K \<le> epochs t"
    and pre: "\<forall>x \<in> set pre. x < ?K"
    by simp_all
  have ex: "\<exists>tk n. last_epoch tk = ?K \<and> hook ?K tk = (Inl KeyboardInterrupt, n) \<and>
              ti = tk \<lparr> nets := n \<rparr>"
    using tk by blast
  have dir: "checkpoint_dir ?tl = checkpoint_dir t" "write_error ?tl = write_error t"
    "last_epoch ?tl = ?K" "saves ?tl = saves ti" "files ?tl = files ti"
    using u by (simp_all add: unchanged_setup_def logger_def)
  have st: "checkpoint_state ?tl ?K = checkpoint_state ti ?K"
    by (simp add: checkpoint_state_def logger_def)
  have tr: "train hook t =
      (case save_checkpoint ?K False False ?tl of
         Inl e \<Rightarrow> (Some e, ?tl) | Inr t3 \<Rightarrow> (Some KeyboardInterrupt, t3))"
    using run dir(3) by (simp add: train_def Let_def)
  have ok: "fst (train hook t) = Some KeyboardInterrupt \<and>
            save_checkpoint ?K False False ?tl = Inr (snd (train hook t)) \<and>
            length (filter (\<lambda>x. ck_epoch (snd x) = ?K)
                      (drop (length (saves t)) (saves (snd (train hook t))))) = 1 \<and>
            last (saves (snd (train hook t))) = (?f, checkpoint_state ti ?K) \<and>
            files (snd (train hook t)) ?f = Some (checkpoint_state ti ?K)"
    if w: "write_error t ?f = None"
  proof -
    from w dir have "\<not> isl (save_checkpoint ?K False False ?tl)"
      by (simp add: save_checkpoint_succeeds)
    then obtain t3 where s3: "save_checkpoint ?K False False ?tl = Inr t3"
      by (cases "save_checkpoint ?K False False ?tl") auto
    with tr have t3: "train hook t = (Some KeyboardInterrupt, t3)"
      by simp
    from save_checkpoint_saves[OF s3] dir st new(1)
    have sv: "saves t3 = saves t @ new @ [(?f, checkpoint_state ti ?K)]"
      and fl: "files t3 ?f = Some (checkpoint_state ti ?K)"
      by simp_all
    have none: "filter (\<lambda>x. ck_epoch (snd x) = ?K) new = []"
      using new(2) pre by (fastforce simp: filter_empty_conv)
    have one: "length (filter (\<lambda>x. ck_epoch (snd x) = ?K)
                     (drop (length (saves t)) (saves t3))) = 1"
      by (simp add: sv none checkpoint_state_def)
    have lst: "last (saves t3) = (?f, checkpoint_state ti ?K)"
      by (simp add: sv)
    from s3 one lst fl show ?thesis
      by (simp add: t3)
  qed
  have bad: "train hook t = (Some (RuntimeError msg), ?tl) \<and>
            saves (snd (train hook t)) = saves ti \<and> files (snd (train hook t)) = files ti"
    if w: "write_error t ?f = Some msg" for msg
  proof -
    from w dir have "save_checkpoint ?K False False ?tl = Inl (RuntimeError msg)"
      by (simp add: save_checkpoint_def Let_def)
    with tr dir show ?thesis by simp
  qed
  from bounds ex ok bad show ?thesis
    by blast
qed

text \<open>
  Four epochs, save period 2, writes that succeed, the interrupt in epoch 3:
  checkpoints of the epochs 1 (best), 2 (period) and 3 (interrupt) are written, and the
  interrupt reaches the caller.
\<close>

theorem interrupt_checkpoint_witness:
  "fst (train_process ex_interrupt_hook ex_long) = Raised KeyboardInterrupt \<and>
   snd (snd (train_process ex_interrupt_hook ex_long)) = 1 \<and>
   save_period ex_long = 2 \<and>
   write_error ex_long (checkpoint_filename (checkpoint_dir ex_long) 3) = None \<and>
   fst (train ex_interrupt_hook ex_long) = Some KeyboardInterrupt \<and>
   map (\<lambda>x. ck_epoch (snd x)) (saves (snd (train ex_interrupt_hook ex_long))) = [1, 2, 3]"
proof -
  let ?r = "train_process ex_interrupt_hook ex_long"
  have run: "?r = (Raised KeyboardInterrupt, fst (snd ?r), snd (snd ?r))"
    by (simp add: run_defs ex_defs)
  show ?thesis
    using interrupt_checkpoint[OF run]
    by (simp add: run_defs ex_defs checkpoint_state_def)
qed

text \<open>
  Without the condition on the write the statement fails. The checkpoint directory
  does not exist and the first of three epochs is interrupted: the handler's write
  raises, \<open>train\<close> ends with that error and not with the interrupt, and no checkpoint of
  epoch 1 is written.
\<close>

theorem interrupt_checkpoint_counterexample:
  "fst (train_process ex_interrupt_at_once ex_no_directory) = Raised KeyboardInterrupt \<and>
   last_epoch (fst (snd (train_process ex_interrupt_at_once ex_no_directory))) = 1 \<and>
   epochs ex_no_directory = 3 \<and>
   fst (train ex_interrupt_at_once ex_no_directory) =
     Some (RuntimeError ''Parent directory saved does not exist.'') \<and>
   saves (snd (train ex_interrupt_at_once ex_no_directory)) = [] \<and>
   files (snd (train ex_interrupt_at_once ex_no_directory))
     (checkpoint_filename (checkpoint_dir ex_no_directory) 1) = None"
  by (simp add: run_defs ex_defs)

section \<open>The flags of the persistence call\<close>

text \<open>
  Claim C9. The persistence call does the same for every value of its two flags. It
  either raises the error of the write, or writes one record, the checkpoint state of
  the supervisor, to the path made of the checkpoint directory and
  \<^verbatim>\<open>checkpoint-epoch\<close>, the epoch number and the suffix \<^verbatim>\<open>.pth\<close>. No other file is
  written.
\<close>

theorem save_flags_have_no_effect:
  "save_checkpoint e sb ob t = save_checkpoint e sb' ob' t \<and>
   (case save_checkpoint e sb ob t of
      Inl x \<Rightarrow>
        x = RuntimeError (the (write_error t
              (path_str (path_div (checkpoint_dir t)
                 (''checkpoint-epoch'' @ str_int e @ ''.pth''))))) \<and>
        write_error t (path_str (path_div (checkpoint_dir t)
            (''checkpoint-epoch'' @ str_int e @ ''.pth''))) \<noteq> None
    | Inr t' \<Rightarrow>
        write_error t (path_str (path_div (checkpoint_dir t)
            (''checkpoint-epoch'' @ str_int e @ ''.pth''))) = None \<and>
        saves t' =
          saves t @ [(path_str (path_div (checkpoint_dir t)
                        (''checkpoint-epoch'' @ str_int e @ ''.pth'')),
                      checkpoint_state t e)] \<and>
        files t' =
          (files t)(path_str (path_div (checkpoint_dir t)
                      (''checkpoint-epoch'' @ str_int e @ ''.pth''))
            \<mapsto> checkpoint_state t e))"
  by (simp add: save_checkpoint_def Let_def logger_def checkpoint_filename_def
      split: option.splits)

text \<open>The path of epoch 12 under the directory \<^verbatim>\<open>saved\<close>.\<close>

lemma checkpoint_filename_example:
  "checkpoint_filename (Path ''saved'') 12 = ''saved/checkpoint-epoch12.pth''"
  by code_simp

text \<open>
  Epoch 12 with the flags set one way and the other: the same result, one record at
  that path; and where the directory does not exist, the error of the write.
\<close>

theorem save_flags_have_no_effect_witness:
  "save_checkpoint 12 True False ex_trainer = save_checkpoint 12 False True ex_trainer \<and>
   \<not> isl (save_checkpoint 12 True False ex_trainer) \<and>
   map fst (saves (projr (save_checkpoint 12 True False ex_trainer))) =
     [''saved/checkpoint-epoch12.pth''] \<and>
   save_checkpoint 12 True False ex_no_directory =
     Inl (RuntimeError ''Parent directory saved does not exist.'')"
proof -
  have d: "checkpoint_dir ex_trainer = Path ''saved''"
    by (simp add: ex_defs Path_def path_root_def)
  have f: "path_str (path_div (checkpoint_dir ex_trainer) (''checkpoint-epoch'' @ str_int 12 @ ''.pth''))
      = ''saved/checkpoint-epoch12.pth''"
    using checkpoint_filename_example by (simp add: d checkpoint_filename_def)
  have ok: "\<not> isl (save_checkpoint 12 True False ex_trainer)"
    by (simp add: save_checkpoint_def Let_def ex_defs)
  then obtain t' where r: "save_checkpoint 12 True False ex_trainer = Inr t'"
    by (cases "save_checkpoint 12 True False ex_trainer") auto
  have s: "saves ex_trainer = []"
    by (simp add: ex_defs)
  have bad: "save_checkpoint 12 True False ex_no_directory =
      Inl (RuntimeError ''Parent directory saved does not exist.'')"
    by (simp add: save_checkpoint_def Let_def ex_defs)
  have 1: "save_checkpoint 12 True False ex_trainer = save_checkpoint 12 False True ex_trainer"
    using save_flags_have_no_effect[of 12 True False ex_trainer False True] by blast
  from save_flags_have_no_effect[of 12 True False ex_trainer False True, unfolded r] f s
  have 2: "saves t' = [(''saved/checkpoint-epoch12.pth'', checkpoint_state ex_trainer 12)]"
    by simp
  have 3: "map fst (saves (projr (save_checkpoint 12 True False ex_trainer))) =
      [''saved/checkpoint-epoch12.pth'']"
    by (simp add: r 2)
  from 1 ok 3 bad show ?thesis
    by (intro conjI)
qed

section \<open>The not-improved counter is local to a run\<close>

text \<open>
  Claim C10. The checkpoint state that an epoch leaves behind does not depend on the
  not-improved counter the epoch started with, and what the epoch appends to the
  saved checkpoints is nothing or that state; every run starts its loop with the
  counter 0, and so does a run after a resume, from the epoch after the checkpoint's.
\<close>

theorem counter_not_persisted:
  "(epoch_body hook e t c1 = (r1, t1, x1) \<and> epoch_body hook e t c2 = (r2, t2, x2) \<longrightarrow>
      checkpoint_state t1 e = checkpoint_state t2 e \<and>
      (saves t1 = saves t \<or>
       saves t1 = saves t @ [(checkpoint_filename (checkpoint_dir t) e, checkpoint_state t2 e)])) \<and>
   train_process hook t = train_loop hook [start_epoch t .. epochs t] t 0 \<and>
   (files t p = Some ck \<and> resume_checkpoint p t = Inr t' \<longrightarrow>
      train_process hook t' = train_loop hook [ck_epoch ck + 1 .. epochs t] t' 0)"
proof (intro conjI impI)
  assume a: "epoch_body hook e t c1 = (r1, t1, x1) \<and> epoch_body hook e t c2 = (r2, t2, x2)"
  then have 1: "epoch_body hook e t c1 = (r1, t1, x1)"
    and 2: "epoch_body hook e t c2 = (r2, t2, x2)"
    by simp_all
  from epoch_body_state_counter[OF 1 2]
  show eq: "checkpoint_state t1 e = checkpoint_state t2 e" .
  from epoch_body_saves[OF 1] eq
  show "saves t1 = saves t \<or>
       saves t1 = saves t @ [(checkpoint_filename (checkpoint_dir t) e, checkpoint_state t2 e)]"
    by (simp split: if_splits)
next
  show "train_process hook t = train_loop hook [start_epoch t .. epochs t] t 0"
    by (simp add: train_process_def)
next
  assume a: "files t p = Some ck \<and> resume_checkpoint p t = Inr t'"
  then have fl: "files t p = Some ck" and res: "resume_checkpoint p t = Inr t'"
    by simp_all
  obtain t4 t5 t6 where
    l: "load_networks ck (logger (Info_loading_checkpoint p) t) = Inr t4" and
    g: "resume_g_optimizer ck t4 = Inr t5" and d: "resume_d_optimizer ck t5 = Inr t6" and
    t': "t' = logger (Info_checkpoint_loaded (start_epoch t6)) t6"
    using resume_checkpoint_steps[OF fl res] .
  have st: "start_epoch t' = ck_epoch ck + 1"
    using load_networks_effect[OF l] resume_g_optimizer_effect[OF g]
      resume_d_optimizer_effect[OF d]
    by (simp add: t' logger_def)
  from st resume_checkpoint_frame[OF res]
  show "train_process hook t' = train_loop hook [ck_epoch ck + 1 .. epochs t] t' 0"
    by (simp add: train_process_def unchanged_setup_def)
qed

text \<open>
  Patience 1 and best value 1.0: epoch 2 reports 2.0; started with the counter 1 it
  stops the loop, started with 0 it goes on, and the checkpoint state is the same. A
  supervisor that resumes from the checkpoint of epoch 7 and runs epoch 8 without
  improvement ends with the counter 1.
\<close>

theorem counter_not_persisted_witness:
  "fst (epoch_body ex_hook 2 ex_patient 1) = Inr Break \<and>
   fst (epoch_body ex_hook 2 ex_patient 0) = Inr Continue \<and>
   checkpoint_state (fst (snd (epoch_body ex_hook 2 ex_patient 0))) 2 =
     checkpoint_state (fst (snd (epoch_body ex_hook 2 ex_patient 1))) 2 \<and>
   files ex_resumable ''ck.pth'' = Some ex_checkpoint \<and>
   \<not> isl (resume_checkpoint ''ck.pth'' ex_resumable) \<and>
   fst (train_process ex_worse_hook (projr (resume_checkpoint ''ck.pth'' ex_resumable))) =
     Exhausted \<and>
   snd (snd (train_process ex_worse_hook (projr (resume_checkpoint ''ck.pth'' ex_resumable)))) = 1"
proof -
  let ?a = "epoch_body ex_hook 2 ex_patient 0"
  let ?b = "epoch_body ex_hook 2 ex_patient 1"
  let ?res = "resume_checkpoint ''ck.pth'' ex_resumable"
  have fa: "fst ?a = Inr Continue"
    by (simp add: run_defs ex_defs)
  have fb: "fst ?b = Inr Break"
    by (simp add: run_defs ex_defs)
  have a: "?a = (fst ?a, fst (snd ?a), snd (snd ?a))"
    by simp
  have b: "?b = (fst ?b, fst (snd ?b), snd (snd ?b))"
    by simp
  have fl: "files ex_resumable ''ck.pth'' = Some ex_checkpoint"
    by (simp add: ex_defs)
  have ok: "\<not> isl ?res"
    by (simp add: resume_eval ex_defs)
  then have res: "?res = Inr (projr ?res)"
    by (cases ?res) simp_all
  have r1: "fst (train_loop ex_worse_hook [8] (projr ?res) 0) = Exhausted"
    by (simp add: run_defs resume_eval ex_defs)
  have r2: "snd (snd (train_loop ex_worse_hook [8] (projr ?res) 0)) = 1"
    by (simp add: run_defs resume_eval ex_defs)
  have 1: "checkpoint_state (fst (snd ?a)) 2 = checkpoint_state (fst (snd ?b)) 2"
    using counter_not_persisted[where hook = ex_hook and e = 2 and t = ex_patient
        and ?c1.0 = 0 and ?r1.0 = "fst ?a" and ?t1.0 = "fst (snd ?a)"
        and ?x1.0 = "snd (snd ?a)" and ?c2.0 = 1 and ?r2.0 = "fst ?b"
        and ?t2.0 = "fst (snd ?b)" and ?x2.0 = "snd (snd ?b)"] a b
    by blast
  have 2: "train_process ex_worse_hook (projr ?res) =
      train_loop ex_worse_hook [ck_epoch ex_checkpoint + 1 .. epochs ex_resumable] (projr ?res) 0"
    using counter_not_persisted[where t = ex_resumable and p = "''ck.pth''"
        and ck = ex_checkpoint and t' = "projr ?res" and hook = ex_worse_hook] fl res
    by blast
  have 3: "[ck_epoch ex_checkpoint + 1 .. epochs ex_resumable] = [8]"
    by (simp add: ex_defs upto_examples)
  from fb fa 1 fl ok r1 r2 show ?thesis
    unfolding 2 3 by (intro conjI)
qed

end
